theory Spec2Isabelle
  imports Main "HOL-Library.AList"
begin

section \<open>VerseFlow: progress reconciliation, pacing and ledger patching (src/main.ts)\<close>

subsection \<open>JSON values and the read-state map\<close>

text \<open>
  The map resource is read with \<^verbatim>\<open>JSON.parse\<close>, so an entry of the map can be any JSON
  value, not only an array of timestamp strings (\<^verbatim>\<open>computeFromMap\<close> takes a
  \<^verbatim>\<open>Record<string, unknown> | null\<close>). Numbers are modelled by their integer value;
  floating point is outside the model.
\<close>

datatype json =
    JNull
  | JBool bool
  | JNum int
  | JStr string
  | JArr "json list"
  | JObj "(string \<times> json) list"

text \<open>
  A map object is looked up at the property named by a non-negative integer index
  (\<^verbatim>\<open>mapObj[i]\<close>); \<open>None\<close> is \<^verbatim>\<open>undefined\<close>, a missing entry.
\<close>

type_synonym mapObj = "nat \<rightharpoonup> json"

text \<open>JavaScript truthiness \<^verbatim>\<open>!!v\<close> of a JSON value.\<close>

fun truthy :: "json \<Rightarrow> bool" where
  "truthy JNull = False"
| "truthy (JBool b) = b"
| "truthy (JNum n) = (n \<noteq> 0)"
| "truthy (JStr s) = (s \<noteq> [])"
| "truthy (JArr xs) = True"
| "truthy (JObj kvs) = True"

text \<open>\<^verbatim>\<open>const has = Array.isArray(v) ? v.length > 0 : !!v;\<close> with \<^verbatim>\<open>v\<close> possibly undefined.\<close>

fun has :: "json option \<Rightarrow> bool" where
  "has None = False"
| "has (Some (JArr xs)) = (xs \<noteq> [])"
| "has (Some v) = truthy v"

text \<open>\<^verbatim>\<open>mapObj?.[i]\<close>: a null map object gives undefined at every index.\<close>

definition entry :: "mapObj option \<Rightarrow> nat \<Rightarrow> json option" where
  "entry mapObj i = (case mapObj of None \<Rightarrow> None | Some m \<Rightarrow> m i)"

record counts =
  uniqueRead :: nat
  firstUnread :: nat

text \<open>
  The loop of \<^verbatim>\<open>computeFromMap\<close>, with the three loop variables
  \<^verbatim>\<open>uniqueRead\<close>, \<^verbatim>\<open>firstUnread\<close> and \<^verbatim>\<open>seenUnread\<close> passed along:
  \<^verbatim>\<open>for (let i = 0; i < total; i++) {
    if (has) uniqueRead++; else if (!seenUnread) { firstUnread = i; seenUnread = true; } }\<close>
\<close>

function scanMap :: "mapObj option \<Rightarrow> nat \<Rightarrow> nat \<Rightarrow> nat \<times> nat \<times> bool \<Rightarrow> nat \<times> nat \<times> bool" where
  "scanMap mapObj tot i (u, f, seen) =
     (if i < tot then
        (if has (entry mapObj i) then scanMap mapObj tot (i + 1) (u + 1, f, seen)
         else if \<not> seen then scanMap mapObj tot (i + 1) (u, i, True)
         else scanMap mapObj tot (i + 1) (u, f, seen))
      else (u, f, seen))"
  by pat_completeness auto
termination
  by (relation "measure (\<lambda>(mapObj, tot, i, acc). tot - i)") auto

declare scanMap.simps [simp del]

definition computeFromMap :: "mapObj option \<Rightarrow> nat \<Rightarrow> counts" where
  "computeFromMap mapObj tot =
     (case scanMap mapObj tot 0 (0, 0, False) of
        (u, f, seen) \<Rightarrow> \<lparr> uniqueRead = u, firstUnread = (if \<not> seen then tot else f) \<rparr>)"

text \<open>An entry that is a non-empty list of timestamp strings, as the data model describes it.\<close>

fun isStr :: "json \<Rightarrow> bool" where
  "isStr (JStr s) = True"
| "isStr v = False"

fun timestampList :: "json option \<Rightarrow> bool" where
  "timestampList (Some (JArr xs)) = (xs \<noteq> [] \<and> list_all isStr xs)"
| "timestampList v = False"

fun isArray :: "json \<Rightarrow> bool" where
  "isArray (JArr xs) = True"
| "isArray v = False"

subsection \<open>Strings: characters, decimal numerals, splitting and trimming\<close>

text \<open>
  Strings are lists of 8-bit characters. The white space of \<^verbatim>\<open>\s\<close> and of
  \<^verbatim>\<open>String.prototype.trim\<close> is modelled by its ASCII members (space, tab, line feed,
  vertical tab, form feed, carriage return); the non-ASCII space characters of Unicode
  are outside the model.
\<close>

definition nl :: char where
  "nl = CHR 0x0A"

definition bar :: char where
  "bar = CHR ''|''"

definition isSpace :: "char \<Rightarrow> bool" where
  "isSpace c = (c \<in> set [CHR 0x20, CHR 0x09, CHR 0x0A, CHR 0x0B, CHR 0x0C, CHR 0x0D])"

definition isDigit :: "char \<Rightarrow> bool" where
  "isDigit c = (c \<in> set ''0123456789'')"

definition digitVal :: "char \<Rightarrow> nat" where
  "digitVal c = of_char c - 48"

definition digitChar :: "nat \<Rightarrow> char" where
  "digitChar d = char_of (48 + d)"

text \<open>The decimal rendering of a non-negative integer in a template literal, \<^verbatim>\<open>`${idx}`\<close>.\<close>

fun showNat :: "nat \<Rightarrow> string" where
  "showNat n = (if n < 10 then [digitChar n] else showNat (n div 10) @ [digitChar (n mod 10)])"

declare showNat.simps [simp del]

text \<open>The value of a string of decimal digits.\<close>

definition digitsVal :: "string \<Rightarrow> nat" where
  "digitsVal ds = foldl (\<lambda>a c. 10 * a + digitVal c) 0 ds"

text \<open>\<^verbatim>\<open>s.split(c)\<close> for a one-character separator: never empty, one piece more than separators.\<close>

fun splitOn :: "char \<Rightarrow> string \<Rightarrow> string list" where
  "splitOn c [] = [[]]"
| "splitOn c (x # xs) =
     (if x = c then [] # splitOn c xs
      else (case splitOn c xs of [] \<Rightarrow> [[x]] | l # ls \<Rightarrow> (x # l) # ls))"

text \<open>\<^verbatim>\<open>s.trim()\<close>.\<close>

definition trim :: "string \<Rightarrow> string" where
  "trim s = rev (dropWhile isSpace (rev (dropWhile isSpace s)))"

subsection \<open>The plan, the progress document and the vault\<close>

record planItem =
  ref :: string
  path :: string

text \<open>
  The plan resource is a JSON array; an element that is falsy (\<^verbatim>\<open>null\<close>) is \<open>None\<close>.
  \<^verbatim>\<open>plan[idx]\<close> is undefined beyond the end of the array, and \<^verbatim>\<open>if (!v) continue\<close>
  treats both alike.
\<close>

type_synonym plan = "planItem option list"

definition planAt :: "plan \<Rightarrow> nat \<Rightarrow> planItem option" where
  "planAt p idx = (if idx < length p then p ! idx else None)"

text \<open>
  The progress document: its frontmatter as the ordered list of its fields, and the text
  below the frontmatter. A document without frontmatter has the empty list.
\<close>

record progressDoc =
  frontmatter :: "(string \<times> json) list"
  body :: string

text \<open>
  The files the commands touch, one field for each of the paths in the settings and the
  session log \<^verbatim>\<open>Bible-Read-Log.md\<close>; the paths are taken to be distinct, as the defaults
  are. \<open>None\<close> is a file that does not exist; for the two JSON resources it is also a
  file that does not parse or parses to a falsy value (\<^verbatim>\<open>readJson(..) || {}\<close>). The map
  resource, when it parses, is taken to be a JSON object.
\<close>

record vault =
  planFile :: "plan option"
  progressFile :: "progressDoc option"
  mapFile :: "mapObj option"
  eventsFile :: "string option"
  logFile :: "string option"

subsection \<open>readProgress\<close>

record progress =
  last_order :: int
  verses_read :: int
  total_verses :: int
  start_date :: string
  target_days :: int

definition hexVal :: "char \<Rightarrow> nat option" where
  "hexVal c =
     (if isDigit c then Some (digitVal c)
      else if c \<in> set ''abcdef'' then Some (of_char c - 87)
      else if c \<in> set ''ABCDEF'' then Some (of_char c - 55)
      else None)"

text \<open>
  \<^verbatim>\<open>Number.parseInt(s)\<close> without a radix: leading white space, an optional sign, then
  hexadecimal digits after \<^verbatim>\<open>0x\<close> or \<^verbatim>\<open>0X\<close> and decimal digits otherwise, as
  many as there are; \<open>None\<close> is \<^verbatim>\<open>NaN\<close>.
\<close>

definition parseMagnitude :: "string \<Rightarrow> nat option" where
  "parseMagnitude s =
     (if take 2 s = ''0x'' \<or> take 2 s = ''0X'' then
        (let ds = takeWhile (\<lambda>c. hexVal c \<noteq> None) (drop 2 s)
         in if ds = [] then None else Some (foldl (\<lambda>a c. 16 * a + the (hexVal c)) 0 ds))
      else
        (let ds = takeWhile isDigit s
         in if ds = [] then None else Some (digitsVal ds)))"

definition parseIntStr :: "string \<Rightarrow> int option" where
  "parseIntStr s =
     (case dropWhile isSpace s of
        [] \<Rightarrow> None
      | c # cs \<Rightarrow>
          if c = CHR ''-'' then map_option (\<lambda>n. - int n) (parseMagnitude cs)
          else if c = CHR ''+'' then map_option int (parseMagnitude cs)
          else map_option int (parseMagnitude (c # cs)))"

text \<open>
  \<^verbatim>\<open>Number.parseInt(v)\<close> of a frontmatter value, which converts \<^verbatim>\<open>v\<close> to a string
  first. An array is rendered as its elements joined by commas, so only its first
  element can contribute digits; an object is rendered as \<^verbatim>\<open>[object Object]\<close>.
\<close>

fun parseIntJson :: "json \<Rightarrow> int option" where
  "parseIntJson (JNum n) = Some n"
| "parseIntJson (JStr s) = parseIntStr s"
| "parseIntJson (JArr (JNull # xs)) = None"
| "parseIntJson (JArr (x # xs)) = parseIntJson x"
| "parseIntJson (JArr []) = None"
| "parseIntJson JNull = None"
| "parseIntJson (JBool b) = None"
| "parseIntJson (JObj kvs) = None"

text \<open>\<^verbatim>\<open>Number.parseInt(fm.key ?? dflt) || dflt\<close>.\<close>

definition intField :: "(string \<times> json) list \<Rightarrow> string \<Rightarrow> int \<Rightarrow> int" where
  "intField fm key dflt =
     (let v = (case map_of fm key of None \<Rightarrow> JNum dflt | Some JNull \<Rightarrow> JNum dflt | Some w \<Rightarrow> w)
      in case parseIntJson v of
           None \<Rightarrow> dflt
         | Some n \<Rightarrow> if n = 0 then dflt else n)"

text \<open>
  \<^verbatim>\<open>readProgress\<close>; \<open>today\<close> is the value of \<^verbatim>\<open>todayISO()\<close>. It only reads: when the
  progress document is absent it returns the defaults and creates nothing.
\<close>

definition readProgress :: "string \<Rightarrow> vault \<Rightarrow> progress" where
  "readProgress today v =
     (case progressFile v of
        None \<Rightarrow> \<lparr> last_order = 0, verses_read = 0, total_verses = 31102,
                  start_date = today, target_days = 365 \<rparr>
      | Some d \<Rightarrow>
          (let fm = frontmatter d in
           \<lparr> last_order = intField fm ''last_order'' 0,
             verses_read = intField fm ''verses_read'' 0,
             total_verses = intField fm ''total_verses'' 31102,
             start_date = (case map_of fm ''start_date'' of Some (JStr s) \<Rightarrow> s | _ \<Rightarrow> today),
             target_days = intField fm ''target_days'' 365 \<rparr>))"

subsection \<open>The pacing arithmetic of insertTodayTarget\<close>

text \<open>
  The numbers are exact integers here. \<open>None\<close> for a time is the \<^verbatim>\<open>NaN\<close> of an invalid
  date. \<^verbatim>\<open>Math.ceil(a / b)\<close> is \<open>- ((- a) div b)\<close> for \<open>b \<noteq> 0\<close>; a division by
  zero gives a value that is not finite (or \<^verbatim>\<open>NaN\<close>), which the guards replace.
\<close>

definition ceilDiv :: "int \<Rightarrow> int \<Rightarrow> int" where
  "ceilDiv a b = - ((- a) div b)"

definition daysElapsedOf :: "int option \<Rightarrow> int option \<Rightarrow> int" where
  "daysElapsedOf todayMs startMs =
     (case (todayMs, startMs) of
        (Some t, Some s) \<Rightarrow> (let d = (t - s) div 86400000 + 1 in if d < 1 then 1 else d)
      | _ \<Rightarrow> 1)"

definition expectedOf :: "int \<Rightarrow> int \<Rightarrow> int \<Rightarrow> int" where
  "expectedOf tot daysElapsed targetDays =
     (if targetDays = 0 then 0
      else (let e = ceilDiv (tot * daysElapsed) targetDays in if e < 0 then 0 else e))"

definition remainingOf :: "int \<Rightarrow> int \<Rightarrow> int" where
  "remainingOf tot versesRead = max 0 (tot - versesRead)"

definition daysRemainingOf :: "int \<Rightarrow> int \<Rightarrow> int" where
  "daysRemainingOf targetDays daysElapsed = max 1 (targetDays - daysElapsed)"

definition paceOf :: "int \<Rightarrow> int \<Rightarrow> int \<Rightarrow> int \<Rightarrow> int" where
  "paceOf tot targetDays daysElapsed versesRead =
     (let p = ceilDiv (remainingOf tot versesRead) (daysRemainingOf targetDays daysElapsed)
      in if p < 1 then 1 else p)"

text \<open>
  \<^verbatim>\<open>const defaultToday = Math.max(1, expected - versesRead || pace);\<close> where
  \<^verbatim>\<open>a - b || c\<close> is \<^verbatim>\<open>(a - b) || c\<close>: the difference unless it is zero.
\<close>

definition defaultToday :: "int \<Rightarrow> int \<Rightarrow> int \<Rightarrow> int \<Rightarrow> int" where
  "defaultToday tot targetDays daysElapsed versesRead =
     (let expected = expectedOf tot daysElapsed targetDays;
          pace = paceOf tot targetDays daysElapsed versesRead;
          d = expected - versesRead
      in max 1 (if d \<noteq> 0 then d else pace))"

text \<open>\<^verbatim>\<open>Math.min(defaultToday, maxToday, Math.max(0, plan.length - lastOrder))\<close>.\<close>

definition todayCount :: "int \<Rightarrow> int \<Rightarrow> nat \<Rightarrow> int \<Rightarrow> int" where
  "todayCount dflt maxToday planLength lastOrder =
     min dflt (min maxToday (max 0 (int planLength - lastOrder)))"

text \<open>
  The recommendation as section 4.2 of the specification words it (steps 6 and 7), and
  as the dashboard that \<^verbatim>\<open>getDashboardContent\<close> generates computes it
  (\<^verbatim>\<open>catchup || pace\<close> with \<^verbatim>\<open>catchup = Math.max(0, expected - verses_read)\<close>).
\<close>

definition catchupOf :: "int \<Rightarrow> int \<Rightarrow> int \<Rightarrow> int \<Rightarrow> int" where
  "catchupOf tot targetDays daysElapsed versesRead =
     max 0 (expectedOf tot daysElapsed targetDays - versesRead)"

definition recommendedTodaySpec :: "int \<Rightarrow> int \<Rightarrow> int \<Rightarrow> int \<Rightarrow> int" where
  "recommendedTodaySpec tot targetDays daysElapsed versesRead =
     (let catchup = catchupOf tot targetDays daysElapsed versesRead
      in if catchup > 0 then catchup else paceOf tot targetDays daysElapsed versesRead)"

subsection \<open>Extracting the checked indices\<close>

text \<open>
  \<^verbatim>\<open>const re = /\[[xX]\][^\n]*\(idx:(\d+)\)/g;\<close>

  \<open>tokenAt\<close> matches \<^verbatim>\<open>\(idx:(\d+)\)\<close> at the start of a string and returns the
  captured number (\<^verbatim>\<open>Number.parseInt(m[1])\<close>, exact here) and the text after the match.
\<close>

definition tokenAt :: "string \<Rightarrow> (nat \<times> string) option" where
  "tokenAt s =
     (if take 5 s = ''(idx:'' then
        (let ds = takeWhile isDigit (drop 5 s); r = dropWhile isDigit (drop 5 s)
         in case r of
              [] \<Rightarrow> None
            | c # r' \<Rightarrow> if ds \<noteq> [] \<and> c = CHR '')'' then Some (digitsVal ds, r') else None)
      else None)"

text \<open>
  \<^verbatim>\<open>[^\n]*\(idx:(\d+)\)\<close> at the start of a string: the star is greedy, so the
  token taken is the last one before the end of the line.
\<close>

fun lastToken :: "string \<Rightarrow> (nat \<times> string) option" where
  "lastToken [] = None"
| "lastToken (c # cs) =
     (case (if c = nl then None else lastToken cs) of
        Some r \<Rightarrow> Some r
      | None \<Rightarrow> tokenAt (c # cs))"

text \<open>The whole pattern at the start of a string.\<close>

definition matchAt :: "string \<Rightarrow> (nat \<times> string) option" where
  "matchAt s =
     (if take 3 s = ''[x]'' \<or> take 3 s = ''[X]'' then lastToken (drop 3 s) else None)"

text \<open>\<^verbatim>\<open>re.exec\<close>: the leftmost match; the text returned is what follows \<^verbatim>\<open>lastIndex\<close>.\<close>

fun reExec :: "string \<Rightarrow> (nat \<times> string) option" where
  "reExec [] = None"
| "reExec (c # cs) =
     (case matchAt (c # cs) of
        Some r \<Rightarrow> Some r
      | None \<Rightarrow> reExec cs)"

lemma tokenAt_shorter: "tokenAt s = Some (n, r) \<Longrightarrow> length r < length s"
proof -
  assume a: "tokenAt s = Some (n, r)"
  then obtain c where "dropWhile isDigit (drop 5 s) = c # r"
    by (auto simp: tokenAt_def Let_def split: if_splits list.splits)
  then have "length (c # r) \<le> length (drop 5 s)"
    by (metis length_dropWhile_le)
  then show ?thesis by simp
qed

lemma lastToken_shorter: "lastToken s = Some (n, r) \<Longrightarrow> length r < length s"
proof (induction s)
  case Nil
  then show ?case by simp
next
  case (Cons c cs)
  then show ?case
    by (auto split: if_splits option.splits dest: tokenAt_shorter)
qed

lemma matchAt_shorter: "matchAt s = Some (n, r) \<Longrightarrow> length r < length s"
  by (auto simp: matchAt_def split: if_splits dest!: lastToken_shorter)

lemma reExec_shorter: "reExec s = Some (n, r) \<Longrightarrow> length r < length s"
proof (induction s)
  case Nil
  then show ?case by simp
next
  case (Cons c cs)
  then show ?case
    by (auto split: option.splits dest: matchAt_shorter)
qed

text \<open>
  \<^verbatim>\<open>while ((m = re.exec(content)) !== null) { ... indices.add(n); }\<close>: the captured
  numbers in the order of their matches.
\<close>

function checkedMatches :: "string \<Rightarrow> nat list" where
  "checkedMatches content =
     (case reExec content of
        None \<Rightarrow> []
      | Some (n, rest) \<Rightarrow> n # checkedMatches rest)"
  by pat_completeness auto
termination
  by (relation "measure length") (auto dest: reExec_shorter)

declare checkedMatches.simps [simp del]

text \<open>
  \<^verbatim>\<open>const sorted = [...indices].sort((a, b) => a - b);\<close> where \<^verbatim>\<open>indices\<close> is the
  \<^verbatim>\<open>Set\<close> the matches were added to.
\<close>

definition sortedIndices :: "string \<Rightarrow> nat list" where
  "sortedIndices content = sort (remdups (checkedMatches content))"

subsection \<open>Stamping the map\<close>

text \<open>
  \<^verbatim>\<open>if (!Array.isArray(mapObj[idx])) mapObj[idx] = [];
  const arr = mapObj[idx]; if (arr[arr.length - 1] !== stamp) arr.push(stamp);\<close>
\<close>

definition arrayAt :: "mapObj \<Rightarrow> nat \<Rightarrow> json list" where
  "arrayAt m idx = (case m idx of Some (JArr xs) \<Rightarrow> xs | _ \<Rightarrow> [])"

definition lastElem :: "json list \<Rightarrow> json option" where
  "lastElem xs = (if xs = [] then None else Some (last xs))"

definition stampIndex :: "string \<Rightarrow> mapObj \<Rightarrow> nat \<Rightarrow> mapObj" where
  "stampIndex stamp m idx =
     (let arr = arrayAt m idx
      in if lastElem arr \<noteq> Some (JStr stamp) then m(idx \<mapsto> JArr (arr @ [JStr stamp]))
         else m(idx \<mapsto> JArr arr))"

subsection \<open>The frontmatter merge-patch\<close>

text \<open>
  Modelled from the spec: the frontmatter patch primitive of the host
  (\<^verbatim>\<open>app.fileManager.processFrontMatter\<close>, not part of this repository). It hands the
  parsed frontmatter to the callback and writes the result back; the text below the
  frontmatter is not touched.
\<close>

definition processFrontMatter ::
  "((string \<times> json) list \<Rightarrow> (string \<times> json) list) \<Rightarrow> progressDoc \<Rightarrow> progressDoc" where
  "processFrontMatter cb d = d\<lparr> frontmatter := cb (frontmatter d) \<rparr>"

text \<open>
  \<^verbatim>\<open>fm.last_order = lastOrder; fm.verses_read = versesRead;\<close> An assignment to a
  property keeps the place of a field that is there and adds a new one at the end.
\<close>

definition patchSnapshot :: "nat \<Rightarrow> nat \<Rightarrow> (string \<times> json) list \<Rightarrow> (string \<times> json) list" where
  "patchSnapshot lastOrder versesRead fm =
     AList.update ''verses_read'' (JNum (int versesRead))
       (AList.update ''last_order'' (JNum (int lastOrder)) fm)"

definition updateProgressFrontmatter :: "nat \<Rightarrow> nat \<Rightarrow> vault \<Rightarrow> vault" where
  "updateProgressFrontmatter lastOrder versesRead v =
     (case progressFile v of
        None \<Rightarrow> v
      | Some d \<Rightarrow> v\<lparr> progressFile := Some (processFrontMatter (patchSnapshot lastOrder versesRead) d) \<rparr>)"

subsection \<open>The ledgers\<close>

definition eventsHeader :: string where
  "eventsHeader = ''| timestamp | idx | ref | path |'' @ [nl] @ ''|---|---:|---|---|'' @ [nl]"

definition logHeader :: string where
  "logHeader = ''| date | start_ref | end_ref | count | last_order |'' @ [nl] @
               ''|---|---|---|---:|---:|'' @ [nl]"

text \<open>\<^verbatim>\<open>`| ${localISO} | ${idx} | ${v.ref} | ${v.path} |\n`\<close>\<close>

definition eventRow :: "string \<Rightarrow> nat \<Rightarrow> planItem \<Rightarrow> string" where
  "eventRow localISO idx v =
     ''| '' @ localISO @ '' | '' @ showNat idx @ '' | '' @ ref v @ '' | '' @ path v @ '' |'' @ [nl]"

text \<open>\<^verbatim>\<open>for (const idx of sorted) { const v = plan[idx]; if (!v) continue; rows += ...; }\<close>\<close>

definition eventRows :: "string \<Rightarrow> plan \<Rightarrow> nat list \<Rightarrow> string" where
  "eventRows localISO p idxs =
     concat (map (\<lambda>idx. case planAt p idx of None \<Rightarrow> [] | Some v \<Rightarrow> eventRow localISO idx v) idxs)"

text \<open>
  \<^verbatim>\<open>/\n\|\s*timestamp\s*\|/.test(existing)\<close> and \<^verbatim>\<open>/\n\|\s*date\s*\|/.test(prev)\<close>:
  \<open>headerHere name\<close> is the pattern at the start of a string, \<open>testHeader name\<close> the
  search for it at any position.
\<close>

definition headerHere :: "string \<Rightarrow> string \<Rightarrow> bool" where
  "headerHere name s =
     (take 2 s = [nl, bar] \<and>
      (let r = dropWhile isSpace (drop 2 s)
       in take (length name) r = name \<and>
          take 1 (dropWhile isSpace (drop (length name) r)) = [bar]))"

fun testHeader :: "string \<Rightarrow> string \<Rightarrow> bool" where
  "testHeader name [] = False"
| "testHeader name (c # cs) = (headerHere name (c # cs) \<or> testHeader name cs)"

text \<open>The append to a ledger: rows only when the test finds the header.\<close>

definition appendLedger :: "string \<Rightarrow> string \<Rightarrow> string \<Rightarrow> string option \<Rightarrow> string" where
  "appendLedger name hdr rows file =
     (case file of
        Some existing \<Rightarrow>
          if testHeader name existing then existing @ rows
          else existing @ [nl] @ hdr @ rows
      | None \<Rightarrow> hdr @ rows)"

text \<open>The row of the session log; \<^verbatim>\<open>plan[first]?.ref ?? ""\<close>.\<close>

definition refAt :: "plan \<Rightarrow> nat \<Rightarrow> string" where
  "refAt p idx = (case planAt p idx of None \<Rightarrow> [] | Some v \<Rightarrow> ref v)"

definition logRow :: "string \<Rightarrow> plan \<Rightarrow> nat list \<Rightarrow> nat \<Rightarrow> string" where
  "logRow localISO p idxs firstUnreadNow =
     ''| '' @ take 10 localISO @ '' | '' @ refAt p (hd idxs) @ '' | '' @ refAt p (last idxs) @
     '' | '' @ showNat (length idxs) @ '' | '' @ showNat firstUnreadNow @ '' |'' @ [nl]"

subsection \<open>Finalize Bible Read\<close>

definition loadMap :: "vault \<Rightarrow> mapObj" where
  "loadMap v = (case mapFile v of None \<Rightarrow> Map.empty | Some m \<Rightarrow> m)"

definition loadPlan :: "vault \<Rightarrow> plan" where
  "loadPlan v = (case planFile v of None \<Rightarrow> [] | Some p \<Rightarrow> p)"

text \<open>
  \<open>editor\<close> is the text of the active editor (\<open>None\<close> when there is no editor),
  \<open>localISO\<close> the time stamp the run takes from the clock. Without an editor and
  without checked items the command returns before it writes anything.
\<close>

definition finalizeBibleRead :: "string option \<Rightarrow> string \<Rightarrow> vault \<Rightarrow> vault" where
  "finalizeBibleRead editor localISO v =
     (case editor of
        None \<Rightarrow> v
      | Some content \<Rightarrow>
          if checkedMatches content = [] then v
          else
            (let idxs = sortedIndices content;
                 mapObj = foldl (stampIndex localISO) (loadMap v) idxs;
                 v1 = v\<lparr> mapFile := Some mapObj \<rparr>;
                 p = loadPlan v1;
                 c = computeFromMap (Some mapObj) (length p);
                 v2 = updateProgressFrontmatter (firstUnread c) (uniqueRead c) v1;
                 v3 = v2\<lparr> eventsFile :=
                        Some (appendLedger ''timestamp'' eventsHeader
                                (eventRows localISO p idxs) (eventsFile v2)) \<rparr>
             in v3\<lparr> logFile :=
                      Some (appendLedger ''date'' logHeader
                              (logRow localISO p idxs (firstUnread c)) (logFile v3)) \<rparr>))"

subsection \<open>The maintenance commands\<close>

text \<open>\<^verbatim>\<open>for (let i = 0; i < upTo; i++) mapObj[i] = [localISO];\<close>\<close>

definition seedMap :: "string \<Rightarrow> int \<Rightarrow> mapObj" where
  "seedMap localISO upTo = foldl (\<lambda>m i. m(i \<mapsto> JArr [JStr localISO])) Map.empty [0..<nat upTo]"

definition seedMapFromProgress :: "string \<Rightarrow> string \<Rightarrow> vault \<Rightarrow> vault" where
  "seedMapFromProgress today localISO v =
     (let prog = readProgress today v;
          p = loadPlan v;
          upTo = min (verses_read prog) (int (length p));
          mapObj = seedMap localISO upTo;
          v1 = v\<lparr> mapFile := Some mapObj \<rparr>;
          c = computeFromMap (Some mapObj) (length p)
      in updateProgressFrontmatter (firstUnread c) (uniqueRead c) v1)"

definition recomputeProgressFromMapCommand :: "vault \<Rightarrow> vault" where
  "recomputeProgressFromMapCommand v =
     (let mapObj = loadMap v;
          p = loadPlan v;
          c = computeFromMap (Some mapObj) (length p)
      in updateProgressFrontmatter (firstUnread c) (uniqueRead c) v)"

text \<open>
  \<^verbatim>\<open>Number(s)\<close> of a trimmed table cell, as an index: the empty string is 0 and a
  string of decimal digits is its value. Every other string is taken to be \<^verbatim>\<open>NaN\<close>
  (\<open>None\<close>), which is what the words of a header cell are; signed, fractional,
  exponent and radix-prefixed literals, which the rows that finalize writes never carry,
  are outside the model.
\<close>

definition jsNumber :: "string \<Rightarrow> nat option" where
  "jsNumber s = (if s = [] then Some 0 else if list_all isDigit s then Some (digitsVal s) else None)"

text \<open>\<^verbatim>\<open>l.startsWith("|") && !/^\|\s*-/.test(l)\<close>\<close>

definition isTableLine :: "string \<Rightarrow> bool" where
  "isTableLine l = (take 1 l = [bar] \<and> take 1 (dropWhile isSpace (drop 1 l)) \<noteq> ''-'')"

text \<open>The body of the loop over the data lines.\<close>

definition replayLine :: "mapObj \<Rightarrow> string \<Rightarrow> mapObj" where
  "replayLine m line =
     (let cols = map trim (splitOn bar line)
      in if length cols \<ge> 5 then
           (let ts = cols ! 1
            in case jsNumber (cols ! 2) of
                 Some idx \<Rightarrow> if ts \<noteq> [] then stampIndex ts m idx else m
               | None \<Rightarrow> m)
         else m)"

definition dataLines :: "string \<Rightarrow> string list" where
  "dataLines text = drop 1 (filter isTableLine (splitOn nl text))"

definition rebuildMap :: "string \<Rightarrow> mapObj" where
  "rebuildMap text = foldl replayLine Map.empty (dataLines text)"

definition rebuildMapFromEventsCommand :: "vault \<Rightarrow> vault" where
  "rebuildMapFromEventsCommand v =
     (let text = (case eventsFile v of None \<Rightarrow> [] | Some t \<Rightarrow> t);
          mapObj = rebuildMap text;
          v1 = v\<lparr> mapFile := Some mapObj \<rparr>;
          p = loadPlan v1;
          c = computeFromMap (Some mapObj) (length p)
      in updateProgressFrontmatter (firstUnread c) (uniqueRead c) v1)"

text \<open>What \<^verbatim>\<open>setupVerseFlowFiles\<close> writes when the events file is missing.\<close>

definition setupEventsFile :: string where
  "setupEventsFile = ''| timestamp | idx | ref | path |'' @ [nl] @ ''|---|---:|---|---|'' @ [nl]"

subsection \<open>The counts as the specification words them\<close>

text \<open>
  Section 4.1 and section 8 of the specification: an index is read when its entry is a
  non-empty timestamp list, unread when its entry is empty or missing.
\<close>

definition specUnread :: "mapObj option \<Rightarrow> nat \<Rightarrow> bool" where
  "specUnread mapObj i = (entry mapObj i = None \<or> entry mapObj i = Some (JArr []))"

definition specUniqueRead :: "mapObj option \<Rightarrow> nat \<Rightarrow> nat" where
  "specUniqueRead mapObj tot = length (filter (\<lambda>i. timestampList (entry mapObj i)) [0..<tot])"

definition specFirstUnread :: "mapObj option \<Rightarrow> nat \<Rightarrow> nat" where
  "specFirstUnread mapObj tot =
     (case find (specUnread mapObj) [0..<tot] of None \<Rightarrow> tot | Some i \<Rightarrow> i)"

text \<open>An entry as the map format has it: missing, or an array of strings.\<close>

fun timestampsOrMissing :: "json option \<Rightarrow> bool" where
  "timestampsOrMissing None = True"
| "timestampsOrMissing (Some (JArr xs)) = list_all isStr xs"
| "timestampsOrMissing (Some v) = False"

subsection \<open>The checked lines as the specification words them\<close>








subsection \<open>Predicates on the files\<close>

text \<open>
  The fields of a frontmatter other than the two the patch assigns, in their order.
\<close>

definition otherFields :: "(string \<times> json) list \<Rightarrow> (string \<times> json) list" where
  "otherFields fm = filter (\<lambda>kv. fst kv \<noteq> ''last_order'' \<and> fst kv \<noteq> ''verses_read'') fm"

text \<open>
  The two snapshot fields of a progress document, and the values derived from the
  map and the plan of a vault.
\<close>

definition snapshotOf :: "progressDoc \<Rightarrow> json option \<times> json option" where
  "snapshotOf d = (map_of (frontmatter d) ''last_order'', map_of (frontmatter d) ''verses_read'')"

definition derivedSnapshot :: "vault \<Rightarrow> json option \<times> json option" where
  "derivedSnapshot v =
     (let c = computeFromMap (Some (loadMap v)) (length (loadPlan v))
      in (Some (JNum (int (firstUnread c))), Some (JNum (int (uniqueRead c)))))"

text \<open>
  A progress document after a command against the document before it: both absent, or
  both present with the same other fields and the same body.
\<close>

definition framed :: "progressDoc option \<Rightarrow> progressDoc option \<Rightarrow> bool" where
  "framed before after =
     (case (before, after) of
        (Some d, Some d') \<Rightarrow> otherFields (frontmatter d') = otherFields (frontmatter d) \<and> body d' = body d
      | (None, None) \<Rightarrow> True
      | _ \<Rightarrow> False)"

text \<open>The snapshot exists and holds the values derived from the map and the plan.\<close>

definition snapshotFresh :: "vault \<Rightarrow> bool" where
  "snapshotFresh v =
     (case progressFile v of
        None \<Rightarrow> False
      | Some d \<Rightarrow> snapshotOf d = derivedSnapshot v)"

text \<open>
  The defaults \<^verbatim>\<open>readProgress\<close> returns for a missing progress document.
\<close>

definition defaultProgress :: "string \<Rightarrow> progress" where
  "defaultProgress today =
     \<lparr> last_order = 0, verses_read = 0, total_verses = 31102, start_date = today, target_days = 365 \<rparr>"

text \<open>The entry at an index is an array whose last element is the given stamp.\<close>

definition stamped :: "string \<Rightarrow> mapObj \<Rightarrow> nat \<Rightarrow> bool" where
  "stamped stamp m idx = (lastElem (arrayAt m idx) = Some (JStr stamp))"

text \<open>
  The text of the events file, and the number of its lines that are the header row of
  the events table.
\<close>

definition eventsText :: "vault \<Rightarrow> string" where
  "eventsText v = (case eventsFile v of None \<Rightarrow> [] | Some t \<Rightarrow> t)"

definition headerCount :: "string \<Rightarrow> nat" where
  "headerCount text = length (filter (\<lambda>l. l = ''| timestamp | idx | ref | path |'') (splitOn nl text))"

subsection \<open>Stamps, lines and the complete ledger\<close>

text \<open>
  The shape of the stamp a run takes from the clock,
  \<^verbatim>\<open>toISOString().slice(0, 19)\<close>: nineteen characters \<^verbatim>\<open>YYYY-MM-DDTHH:MM:SS\<close>, the
  first and the last a digit. A text is a single line when it has no line feed.
\<close>

definition stampChar :: "char \<Rightarrow> bool" where
  "stampChar c = (isDigit c \<or> c \<in> set ''-T:'')"

definition stampShape :: "string \<Rightarrow> bool" where
  "stampShape s = (length s = 19 \<and> list_all stampChar s \<and> isDigit (hd s) \<and> isDigit (last s))"

definition singleLine :: "string \<Rightarrow> bool" where
  "singleLine s = (nl \<notin> set s)"

text \<open>
  The lines of the events table: the header row, the separator row, a data row without
  its line feed. A ledger text is a list of lines, each ended by a line feed.
  \<open>lineIdx\<close> is the index that the loop of the rebuild stamps for a line, if any.
\<close>

definition headerLine :: string where
  "headerLine = ''| timestamp | idx | ref | path |''"

definition sepLine :: string where
  "sepLine = ''|---|---:|---|---|''"

definition rowLine :: "string \<Rightarrow> nat \<Rightarrow> planItem \<Rightarrow> string" where
  "rowLine localISO idx v =
     ''| '' @ localISO @ '' | '' @ showNat idx @ '' | '' @ ref v @ '' | '' @ path v @ '' |''"

definition rowLines :: "string \<Rightarrow> plan \<Rightarrow> nat list \<Rightarrow> string list" where
  "rowLines s p idxs = map (\<lambda>i. rowLine s i (the (planAt p i))) idxs"

definition ledgerOf :: "string list \<Rightarrow> string" where
  "ledgerOf ls = concat (map (\<lambda>l. l @ [nl]) ls)"

definition lineIdx :: "string \<Rightarrow> nat option" where
  "lineIdx l =
     (let cols = map trim (splitOn bar l)
      in if length cols \<ge> 5 \<and> cols ! 1 \<noteq> [] then jsNumber (cols ! 2) else None)"

text \<open>
  A ledger is complete for a sequence of Finalize runs when every run writes one row for
  every index it stamps: each checked index has a plan entry, and the reference and the
  path of that entry are single lines (a line feed would break the row in two). The runs
  start from an events file that is absent, empty or as setup creates it.
\<close>

definition entryOk :: "plan \<Rightarrow> nat \<Rightarrow> bool" where
  "entryOk p i = (case planAt p i of None \<Rightarrow> False | Some v \<Rightarrow> singleLine (ref v) \<and> singleLine (path v))"

definition completeRun :: "plan \<Rightarrow> string \<times> string \<Rightarrow> bool" where
  "completeRun p run = (stampShape (snd run) \<and> list_all (entryOk p) (checkedMatches (fst run)))"

definition finalizeAll :: "(string \<times> string) list \<Rightarrow> vault \<Rightarrow> vault" where
  "finalizeAll runs v = foldl (\<lambda>w run. finalizeBibleRead (Some (fst run)) (snd run) w) v runs"

definition freshLedger :: "string option \<Rightarrow> bool" where
  "freshLedger e = (e = None \<or> e = Some [] \<or> e = Some setupEventsFile)"

text \<open>
  The invariant of the events file over a sequence of runs: it is a list of single
  lines, every line that yields an index is a table line, the first table line is the
  header, and the indices the lines yield are the indices completed so far. The
  invariant of the vault: the map and the ledger hold the same indices.
\<close>

definition rowIdxs :: "string list \<Rightarrow> nat set" where
  "rowIdxs ls = {i. \<exists>l\<in>set ls. lineIdx l = Some i}"

definition goodLines :: "string list \<Rightarrow> bool" where
  "goodLines ls = (list_all singleLine ls \<and> (\<forall>l\<in>set ls. lineIdx l \<noteq> None \<longrightarrow> isTableLine l))"

definition headed :: "string list \<Rightarrow> bool" where
  "headed ls = (ls = [] \<or> (\<exists>rest. filter isTableLine ls = headerLine # rest))"

definition ledgerInv :: "string option \<Rightarrow> nat set \<Rightarrow> bool" where
  "ledgerInv e C =
     (\<exists>ls. (e = None \<and> ls = [] \<or> e = Some (ledgerOf ls)) \<and> goodLines ls \<and> headed ls \<and> rowIdxs ls = C)"

definition vaultInv :: "plan \<Rightarrow> vault \<Rightarrow> nat set \<Rightarrow> bool" where
  "vaultInv p v C = (loadPlan v = p \<and> (\<forall>j. has (loadMap v j) = (j \<in> C)) \<and> ledgerInv (eventsFile v) C)"

subsection \<open>Concrete inputs\<close>

text \<open>Two maps of timestamp lists, one with a gap at index 1.\<close>

definition exampleMap :: mapObj where
  "exampleMap = [0 \<mapsto> JArr [JStr ''2025-10-07T08:00:00''], 2 \<mapsto> JArr [JStr ''2025-10-08T08:00:00'']]"

definition denseMap :: mapObj where
  "denseMap = [0 \<mapsto> JArr [JStr ''2025-10-07T08:00:00''], 1 \<mapsto> JArr [JStr ''2025-10-08T08:00:00'']]"

text \<open>
  A one-verse plan, the files as \<^verbatim>\<open>setupVerseFlowFiles\<close> creates them, a
  document with one checked line, and variants: a progress document without the two
  snapshot fields and with a field of the user's, a vault without the progress document,
  a plan whose first entry is null.
\<close>

definition exampleItem :: planItem where
  "exampleItem = \<lparr> ref = ''Gen 1:1'', path = ''Bible/Genesis/Genesis 1.md#v1'' \<rparr>"

definition setupProgress :: progressDoc where
  "setupProgress =
     \<lparr> frontmatter = [(''last_order'', JNum 0), (''verses_read'', JNum 0),
                       (''total_verses'', JNum 31102), (''start_date'', JStr ''2025-10-07''),
                       (''target_days'', JNum 365)],
       body = [] \<rparr>"

definition setupVault :: vault where
  "setupVault =
     \<lparr> planFile = Some [Some exampleItem],
       progressFile = Some setupProgress,
       mapFile = Some Map.empty,
       eventsFile = Some setupEventsFile,
       logFile = Some logHeader \<rparr>"

definition checkedDoc :: string where
  "checkedDoc = ''> - [x] [[Bible/Genesis/Genesis 1.md#v1|Gen 1:1]] (idx:0)'' @ [nl]"

definition sparseProgress :: progressDoc where
  "sparseProgress =
     \<lparr> frontmatter = [(''total_verses'', JNum 100), (''note'', JStr ''keep me'')],
       body = ''# Reading progress'' \<rparr>"

definition noProgressVault :: vault where
  "noProgressVault = setupVault\<lparr> progressFile := None \<rparr>"

definition nullEntryVault :: vault where
  "nullEntryVault = setupVault\<lparr> planFile := Some [None, Some exampleItem] \<rparr>"

text \<open>
  A document with two checked lines that carry the same index, a plan of eight verses, a
  vault that has only the plan and the progress document, a document whose checked
  index lies beyond a one-verse plan, two runs, a checked line with two tokens,
  and a plan whose only reference has a line feed in it.
\<close>

definition twice7Doc :: string where
  "twice7Doc = ''> - [x] [[Bible/Genesis/Genesis 1.md#v8|Gen 1:8]] (idx:7)'' @ [nl] @
               ''> - [X] Gen 1:8, read again (idx:7)'' @ [nl]"

definition eightVersePlan :: plan where
  "eightVersePlan = replicate 7 (Some exampleItem) @
                    [Some \<lparr> ref = ''Gen 1:8'', path = ''Bible/Genesis/Genesis 1.md#v8'' \<rparr>]"

definition freshVault :: vault where
  "freshVault =
     \<lparr> planFile = Some eightVersePlan, progressFile = Some setupProgress,
       mapFile = None, eventsFile = None, logFile = None \<rparr>"

definition beyondDoc :: string where
  "beyondDoc = ''- [x] a verse the plan does not have (idx:5)''"

definition twoRuns :: "(string \<times> string) list" where
  "twoRuns = [(twice7Doc, ''2025-10-07T08:00:00''), (checkedDoc, ''2025-10-08T09:30:00'')]"


definition brokenRefVault :: vault where
  "brokenRefVault =
     \<lparr> planFile = Some [Some \<lparr> ref = ''Gen'' @ [nl] @ ''1:1'', path = ''Bible/Genesis/Genesis 1.md#v1'' \<rparr>],
       progressFile = None, mapFile = None, eventsFile = None, logFile = None \<rparr>"

subsection \<open>What the scan computes\<close>

lemma scanMap_unfold:
  "scanMap mapObj tot i (u, f, seen) =
     (if i < tot then
        scanMap mapObj tot (Suc i)
          (if has (entry mapObj i) then (Suc u, f, seen)
           else if seen then (u, f, seen) else (u, i, True))
      else (u, f, seen))"
  by (subst scanMap.simps) simp

lemma scanMap_done: "tot \<le> i \<Longrightarrow> scanMap mapObj tot i acc = acc"
  by (cases acc) (simp add: scanMap_unfold)

lemma scanMap_spec:
  "scanMap m tot i (u, f, seen) =
     (u + length (filter (\<lambda>j. has (entry m j)) [i..<tot]),
      (if seen then f else case find (\<lambda>j. \<not> has (entry m j)) [i..<tot] of None \<Rightarrow> f | Some j \<Rightarrow> j),
      seen \<or> (\<exists>j\<in>set [i..<tot]. \<not> has (entry m j)))"
proof (induction "tot - i" arbitrary: i u f seen)
  case 0
  then show ?case by (simp add: scanMap_unfold)
next
  case (Suc d)
  then have lt: "i < tot" and d: "d = tot - Suc i" by auto
  have up: "[i..<tot] = i # [Suc i..<tot]" using lt by (simp add: upt_conv_Cons)
  show ?case
    by (subst scanMap_unfold) (auto simp: lt up Suc.hyps(1)[OF d])
qed

lemma computeFromMap_uniqueRead:
  "uniqueRead (computeFromMap m tot) = length (filter (\<lambda>j. has (entry m j)) [0..<tot])"
  by (simp add: computeFromMap_def scanMap_spec)

lemma computeFromMap_firstUnread:
  "firstUnread (computeFromMap m tot) =
     (case find (\<lambda>j. \<not> has (entry m j)) [0..<tot] of None \<Rightarrow> tot | Some j \<Rightarrow> j)"
proof (cases "find (\<lambda>j. \<not> has (entry m j)) [0..<tot]")
  case None
  then have "\<not> (\<exists>j\<in>set [0..<tot]. \<not> has (entry m j))"
    by (simp add: find_None_iff)
  with None show ?thesis by (simp add: computeFromMap_def scanMap_spec)
next
  case (Some j)
  then have "\<exists>j\<in>set [0..<tot]. \<not> has (entry m j)"
    by (metis find_None_iff option.distinct(1))
  with Some show ?thesis by (simp add: computeFromMap_def scanMap_spec)
qed

lemma count_upt_card: "length (filter P [0..<n]) = card {i. i < n \<and> P i}"
proof -
  have "{i. i < n \<and> P ([0..<n] ! i)} = {i. i < n \<and> P i}" by auto
  then show ?thesis by (simp add: length_filter_conv_card)
qed

lemma find_upt_None: "find P [0..<n] = None \<longleftrightarrow> (\<forall>j<n. \<not> P j)"
  by (auto simp: find_None_iff)

lemma find_upt_Some: "find P [0..<n] = Some j \<longleftrightarrow> j < n \<and> P j \<and> (\<forall>k<j. \<not> P k)"
  by (auto simp: find_Some_iff)

lemma firstUnread_char:
  "firstUnread (computeFromMap m tot) \<le> tot \<and>
   (\<forall>j < firstUnread (computeFromMap m tot). has (entry m j)) \<and>
   (firstUnread (computeFromMap m tot) < tot \<longrightarrow> \<not> has (entry m (firstUnread (computeFromMap m tot))))"
  by (auto simp: computeFromMap_firstUnread find_upt_None find_upt_Some split: option.splits)

subsection \<open>computeFromMap against the specification\<close>

lemma typed_has: "timestampsOrMissing e \<Longrightarrow> has e = timestampList e"
  by (cases e rule: timestampsOrMissing.cases) auto

lemma typed_unread: "timestampsOrMissing (entry m i) \<Longrightarrow> (\<not> has (entry m i)) = specUnread m i"
  by (cases "entry m i" rule: timestampsOrMissing.cases) (auto simp: specUnread_def)

lemma computeFromMap_typed:
  assumes "\<forall>i<tot. timestampsOrMissing (entry m i)"
  shows "computeFromMap m tot = \<lparr> uniqueRead = specUniqueRead m tot, firstUnread = specFirstUnread m tot \<rparr>"
proof -
  have f: "filter (\<lambda>j. has (entry m j)) [0..<tot] = filter (\<lambda>i. timestampList (entry m i)) [0..<tot]"
    using assms by (intro filter_cong) (auto simp: typed_has)
  have g: "find (\<lambda>j. \<not> has (entry m j)) [0..<tot] = find (specUnread m) [0..<tot]"
    using assms by (intro find_cong) (auto simp: typed_unread)
  have "uniqueRead (computeFromMap m tot) = specUniqueRead m tot"
    by (simp add: computeFromMap_uniqueRead specUniqueRead_def f)
  moreover have "firstUnread (computeFromMap m tot) = specFirstUnread m tot"
    by (simp add: computeFromMap_firstUnread specFirstUnread_def g)
  ultimately show ?thesis by simp
qed

lemma computeFromMap_empty: "computeFromMap (Some Map.empty) tot = \<lparr> uniqueRead = 0, firstUnread = 0 \<rparr>"
proof -
  have u: "uniqueRead (computeFromMap (Some Map.empty) tot) = 0"
    by (simp add: computeFromMap_uniqueRead entry_def)
  have "firstUnread (computeFromMap (Some Map.empty) tot) = 0"
  proof (cases tot)
    case 0
    then show ?thesis by (simp add: computeFromMap_firstUnread)
  next
    case (Suc n)
    then have "[0..<tot] = 0 # [1..<tot]" by (simp add: upt_conv_Cons)
    then show ?thesis by (simp add: computeFromMap_firstUnread entry_def)
  qed
  with u show ?thesis by simp
qed

lemma computeFromMap_dense:
  assumes "\<forall>i<tot. has (entry m i)"
  shows "computeFromMap m tot = \<lparr> uniqueRead = tot, firstUnread = tot \<rparr>"
proof -
  have "filter (\<lambda>j. has (entry m j)) [0..<tot] = [0..<tot]"
    using assms by (simp add: filter_id_conv)
  then have u: "uniqueRead (computeFromMap m tot) = tot"
    by (simp add: computeFromMap_uniqueRead)
  have "find (\<lambda>j. \<not> has (entry m j)) [0..<tot] = None"
    using assms by (simp add: find_None_iff)
  then have "firstUnread (computeFromMap m tot) = tot"
    by (simp add: computeFromMap_firstUnread)
  with u show ?thesis by simp
qed

text \<open>
  Claim C1, as the code has it. For every map object (or null) and every total,
  \<open>uniqueRead\<close> is the number of indices below the total whose entry the test
  \<^verbatim>\<open>has\<close> accepts (a non-empty array, or a truthy value that is not an array), and
  \<open>firstUnread\<close> is the smallest index below the total whose entry the test rejects
  (missing, an empty array, or a falsy value that is not an array), or the total when
  there is none. When every entry below the total is missing or an array of timestamp
  strings, these are the counts of the specification. The empty map gives 0 and 0; a
  map that is read at every index below the total gives the total as \<open>firstUnread\<close>.
\<close>

theorem computeFromMap_counts:
  "uniqueRead (computeFromMap M tot) = card {i. i < tot \<and> has (entry M i)} \<and>
   firstUnread (computeFromMap M tot) \<le> tot \<and>
   (\<forall>j < firstUnread (computeFromMap M tot). has (entry M j)) \<and>
   (firstUnread (computeFromMap M tot) < tot \<longrightarrow>
      \<not> has (entry M (firstUnread (computeFromMap M tot)))) \<and>
   ((\<forall>i<tot. timestampsOrMissing (entry M i)) \<longrightarrow>
      computeFromMap M tot =
        \<lparr> uniqueRead = specUniqueRead M tot, firstUnread = specFirstUnread M tot \<rparr>) \<and>
   computeFromMap (Some Map.empty) tot = \<lparr> uniqueRead = 0, firstUnread = 0 \<rparr> \<and>
   ((\<forall>i<tot. has (entry M i)) \<longrightarrow> firstUnread (computeFromMap M tot) = tot)"
  using firstUnread_char [of M tot] computeFromMap_typed [of tot M]
    computeFromMap_dense [of tot M] computeFromMap_empty [of tot]
  by (simp add: computeFromMap_uniqueRead count_upt_card)

lemma lt3: "(i < (3::nat)) = (i = 0 \<or> i = 1 \<or> i = 2)" by auto
lemma lt2: "(i < (2::nat)) = (i = 0 \<or> i = 1)" by auto

theorem computeFromMap_counts_witness:
  "computeFromMap (Some exampleMap) 3 = \<lparr> uniqueRead = 2, firstUnread = 1 \<rparr> \<and>
   specUniqueRead (Some exampleMap) 3 = 2 \<and> specFirstUnread (Some exampleMap) 3 = 1 \<and>
   \<not> has (entry (Some exampleMap) 1) \<and>
   computeFromMap (Some denseMap) 2 = \<lparr> uniqueRead = 2, firstUnread = 2 \<rparr>"
proof -
  have t: "\<forall>i<3. timestampsOrMissing (entry (Some exampleMap) i)"
    by (simp add: lt3 entry_def exampleMap_def)
  have d: "\<forall>i<2. has (entry (Some denseMap) i)"
    by (simp add: lt2 entry_def denseMap_def)
  have s: "specUniqueRead (Some exampleMap) 3 = 2" "specFirstUnread (Some exampleMap) 3 = 1"
    by (simp_all add: specUniqueRead_def specFirstUnread_def specUnread_def entry_def exampleMap_def upt_rec)
  have c: "card {i. i < (2::nat) \<and> has (entry (Some denseMap) i)} = 2"
  proof -
    have "{i. i < (2::nat) \<and> has (entry (Some denseMap) i)} = {0, 1}"
      using d by (auto simp: lt2)
    then show ?thesis by simp
  qed
  from computeFromMap_counts [of "Some exampleMap" 3] t s
  have a: "computeFromMap (Some exampleMap) 3 = \<lparr> uniqueRead = 2, firstUnread = 1 \<rparr>"
    by simp
  from computeFromMap_counts [of "Some denseMap" 2] d c
  have b: "computeFromMap (Some denseMap) 2 = \<lparr> uniqueRead = 2, firstUnread = 2 \<rparr>"
    by simp
  have "\<not> has (entry (Some exampleMap) 1)" by (simp add: entry_def exampleMap_def)
  with a b s show ?thesis by simp
qed

text \<open>
  Claim C1 as it is stated fails on a map with a truthy entry that is not a list: the
  entry is counted as read although it is not a timestamp list.
\<close>

theorem computeFromMap_scalar_counterexample:
  "uniqueRead (computeFromMap (Some [0 \<mapsto> JStr ''x'']) 1) = 1 \<and>
   specUniqueRead (Some [0 \<mapsto> JStr ''x'']) 1 = 0"
  by (simp add: computeFromMap_uniqueRead specUniqueRead_def entry_def)

lemma has_nonarray: "\<not> isArray v \<Longrightarrow> has (Some v) = truthy v"
  by (cases v) auto

lemma uniqueRead_counts_read_index:
  assumes "i < tot" "has (M i)"
  shows "uniqueRead (computeFromMap (Some M) tot) =
         Suc (uniqueRead (computeFromMap (Some (M(i := None))) tot))"
proof -
  let ?A = "{j. j < tot \<and> has ((M(i := None)) j)}"
  have fin: "finite ?A" by simp
  have "{j. j < tot \<and> has (M j)} = insert i ?A"
    using assms by auto
  moreover have "i \<notin> ?A" by simp
  ultimately have "card {j. j < tot \<and> has (M j)} = Suc (card ?A)"
    using fin by (metis card_insert_disjoint)
  then show ?thesis
    by (simp add: computeFromMap_uniqueRead count_upt_card entry_def)
qed

lemma firstUnread_not_read_index:
  assumes "i < tot" "has (entry M i)"
  shows "firstUnread (computeFromMap M tot) \<noteq> i"
  using firstUnread_char [of M tot] assms by auto

text \<open>
  Claim C10. An entry that is not an array is counted as read whenever it is truthy: for
  every map with such an entry at an index below the total, the index adds one to
  \<open>uniqueRead\<close> and is not \<open>firstUnread\<close>. The emptiness test applies to arrays only:
  the empty array is not read.
\<close>

theorem computeFromMap_truthy_scalar:
  assumes "i < tot" and "M i = Some v" and "\<not> isArray v" and "truthy v"
  shows "uniqueRead (computeFromMap (Some M) tot) =
           Suc (uniqueRead (computeFromMap (Some (M(i := None))) tot)) \<and>
         firstUnread (computeFromMap (Some M) tot) \<noteq> i \<and>
         has (Some v) \<and> \<not> has (Some (JArr []))"
proof -
  have h: "has (M i)" using assms by (simp add: has_nonarray)
  then have "has (entry (Some M) i)" by (simp add: entry_def)
  with assms(1) h show ?thesis
    using uniqueRead_counts_read_index [of i tot M] firstUnread_not_read_index [of i tot "Some M"] assms
    by (simp add: has_nonarray)
qed

theorem computeFromMap_truthy_scalar_witness:
  "uniqueRead (computeFromMap (Some [0 \<mapsto> JNum 5]) 1) = 1 \<and>
   firstUnread (computeFromMap (Some [0 \<mapsto> JNum 5]) 1) = 1 \<and>
   uniqueRead (computeFromMap (Some [1 \<mapsto> JStr ''yes'']) 2) = 1 \<and>
   firstUnread (computeFromMap (Some [1 \<mapsto> JStr ''yes'']) 2) = 0"
proof -
  have e: "computeFromMap (Some ([0 \<mapsto> JNum 5](0 := None))) 1 = \<lparr> uniqueRead = 0, firstUnread = 0 \<rparr>"
          "computeFromMap (Some ([1 \<mapsto> JStr ''yes''](1 := None))) 2 = \<lparr> uniqueRead = 0, firstUnread = 0 \<rparr>"
    by (simp_all add: computeFromMap_empty)
  have f: "firstUnread (computeFromMap (Some [0 \<mapsto> JNum 5]) 1) \<le> 1"
          "firstUnread (computeFromMap (Some [1 \<mapsto> JStr ''yes'']) 2) = 0"
    using firstUnread_char [of "Some [0 \<mapsto> JNum 5]" 1]
    by (simp_all add: computeFromMap_firstUnread entry_def upt_rec)
  from computeFromMap_truthy_scalar [of 0 1 "[0 \<mapsto> JNum 5]" "JNum 5"]
       computeFromMap_truthy_scalar [of 1 2 "[1 \<mapsto> JStr ''yes'']" "JStr ''yes''"] e f
  show ?thesis by auto
qed

subsection \<open>The pacing example and the events header\<close>

lemma paceOf_positive: "1 \<le> paceOf tot targetDays daysElapsed versesRead"
  by (simp add: paceOf_def Let_def)

lemma defaultToday_not_ahead:
  assumes "versesRead \<le> expectedOf tot daysElapsed targetDays"
  shows "defaultToday tot targetDays daysElapsed versesRead =
         recommendedTodaySpec tot targetDays daysElapsed versesRead"
  using assms paceOf_positive [of tot targetDays daysElapsed versesRead]
  by (auto simp: defaultToday_def recommendedTodaySpec_def catchupOf_def Let_def)

lemma defaultToday_ahead:
  assumes "expectedOf tot daysElapsed targetDays < versesRead"
  shows "defaultToday tot targetDays daysElapsed versesRead = 1"
  using assms by (simp add: defaultToday_def Let_def)

lemma appendLedger_keeps_existing:
  "\<exists>suffix. appendLedger name hdr rows (Some existing) = existing @ suffix"
  by (simp add: appendLedger_def)

text \<open>
  Claim C2. With total 100, 10 target days, day 5 and 60 verses read, the expected count
  is 50, catch-up is 0 and the pace is 8, so the recommendation of the specification
  (and of the generated dashboard) is 8; \<^verbatim>\<open>insertTodayTarget\<close> computes 1, because the
  difference \<open>50 - 60 = -10\<close> is truthy and \<^verbatim>\<open>Math.max(1, -10)\<close> is 1.
\<close>

theorem insertTodayTarget_ahead_of_schedule:
  "expectedOf 100 5 10 = 50 \<and> catchupOf 100 10 5 60 = 0 \<and> paceOf 100 10 5 60 = 8 \<and>
   recommendedTodaySpec 100 10 5 60 = 8 \<and> defaultToday 100 10 5 60 = 1"
  by (simp add: expectedOf_def catchupOf_def paceOf_def recommendedTodaySpec_def defaultToday_def
      ceilDiv_def remainingOf_def daysRemainingOf_def)

text \<open>
  Claim C6. The test for the header asks for a line feed before the header row, so it
  does not find a header that is the first line of the file. Finalize on the events file
  that setup has just created appends a second header; and when finalize itself created
  the file, the next finalize appends a second header.
\<close>

theorem finalize_duplicates_events_header:
  "headerCount setupEventsFile = 1 \<and>
   \<not> testHeader ''timestamp'' setupEventsFile \<and>
   eventsFile (finalizeBibleRead (Some checkedDoc) ''2025-10-07T08:00:00'' setupVault) =
     Some (setupEventsFile @ [nl] @ eventsHeader @ eventRow ''2025-10-07T08:00:00'' 0 exampleItem) \<and>
   headerCount (eventsText (finalizeBibleRead (Some checkedDoc) ''2025-10-07T08:00:00'' setupVault)) = 2 \<and>
   headerCount (eventsText (finalizeBibleRead (Some checkedDoc) ''2025-10-07T08:00:00''
      (setupVault\<lparr> eventsFile := None \<rparr>))) = 1 \<and>
   headerCount (eventsText (finalizeBibleRead (Some checkedDoc) ''2025-10-08T08:00:00''
     (finalizeBibleRead (Some checkedDoc) ''2025-10-07T08:00:00''
        (setupVault\<lparr> eventsFile := None \<rparr>)))) = 2"
  by code_simp

subsection \<open>The merge-patch and the commands\<close>

lemma otherFields_update:
  "k = ''last_order'' \<or> k = ''verses_read'' \<Longrightarrow> otherFields (AList.update k x fm) = otherFields fm"
  by (induction fm) (auto simp: otherFields_def)

lemma otherFields_patch: "otherFields (patchSnapshot lo vr fm) = otherFields fm"
  by (simp add: patchSnapshot_def otherFields_update)

lemma map_of_patch:
  "map_of (patchSnapshot lo vr fm) =
     (map_of fm)(''last_order'' \<mapsto> JNum (int lo), ''verses_read'' \<mapsto> JNum (int vr))"
  by (simp add: patchSnapshot_def update_conv')

lemma map_of_patch_other:
  "k \<noteq> ''last_order'' \<Longrightarrow> k \<noteq> ''verses_read'' \<Longrightarrow> map_of (patchSnapshot lo vr fm) k = map_of fm k"
  by (simp add: map_of_patch)

lemma update_progress_absent:
  "progressFile v = None \<Longrightarrow> updateProgressFrontmatter lo vr v = v"
  by (simp add: updateProgressFrontmatter_def)

lemma update_progress_present:
  "progressFile v = Some d \<Longrightarrow>
   updateProgressFrontmatter lo vr v =
     v\<lparr> progressFile := Some (d\<lparr> frontmatter := patchSnapshot lo vr (frontmatter d) \<rparr>) \<rparr>"
  by (simp add: updateProgressFrontmatter_def processFrontMatter_def)

lemma update_progress_other_files:
  "planFile (updateProgressFrontmatter lo vr v) = planFile v \<and>
   mapFile (updateProgressFrontmatter lo vr v) = mapFile v \<and>
   eventsFile (updateProgressFrontmatter lo vr v) = eventsFile v \<and>
   logFile (updateProgressFrontmatter lo vr v) = logFile v"
  by (simp add: updateProgressFrontmatter_def split: option.splits)

text \<open>The progress document after each command, in terms of the document before.\<close>

lemma finalize_progress:
  "progressFile (finalizeBibleRead e s v) =
     (case e of None \<Rightarrow> progressFile v
      | Some content \<Rightarrow>
         if checkedMatches content = [] then progressFile v
         else progressFile (updateProgressFrontmatter
                (firstUnread (computeFromMap (Some (foldl (stampIndex s) (loadMap v) (sortedIndices content))) (length (loadPlan v))))
                (uniqueRead (computeFromMap (Some (foldl (stampIndex s) (loadMap v) (sortedIndices content))) (length (loadPlan v))))
                (v\<lparr> mapFile := Some (foldl (stampIndex s) (loadMap v) (sortedIndices content)) \<rparr>)))"
  by (simp add: finalizeBibleRead_def Let_def loadPlan_def split: option.splits)

lemma finalize_map:
  "mapFile (finalizeBibleRead e s v) =
     (case e of None \<Rightarrow> mapFile v
      | Some content \<Rightarrow>
         if checkedMatches content = [] then mapFile v
         else Some (foldl (stampIndex s) (loadMap v) (sortedIndices content)))"
  by (simp add: finalizeBibleRead_def Let_def update_progress_other_files split: option.splits)

lemma finalize_plan: "planFile (finalizeBibleRead e s v) = planFile v"
  by (simp add: finalizeBibleRead_def Let_def update_progress_other_files split: option.splits)

lemma finalize_events:
  "eventsFile (finalizeBibleRead e s v) =
     (case e of None \<Rightarrow> eventsFile v
      | Some content \<Rightarrow>
         if checkedMatches content = [] then eventsFile v
         else Some (appendLedger ''timestamp'' eventsHeader
                      (eventRows s (loadPlan v) (sortedIndices content)) (eventsFile v)))"
  by (simp add: finalizeBibleRead_def Let_def update_progress_other_files loadPlan_def split: option.splits)

lemma framed_refl: "framed p p"
  by (simp add: framed_def split: option.splits)

lemma framed_update: "progressFile v = p \<Longrightarrow> framed p (progressFile (updateProgressFrontmatter lo vr v))"
  by (cases "progressFile v")
     (auto simp: framed_def update_progress_absent update_progress_present otherFields_patch)

lemma framed_finalize: "framed (progressFile v) (progressFile (finalizeBibleRead e s v))"
  by (auto simp: finalize_progress framed_refl intro!: framed_update split: option.splits)

lemma seed_progress:
  "progressFile (seedMapFromProgress today s v) =
   progressFile (updateProgressFrontmatter
     (firstUnread (computeFromMap (Some (seedMap s (min (verses_read (readProgress today v)) (int (length (loadPlan v)))))) (length (loadPlan v))))
     (uniqueRead (computeFromMap (Some (seedMap s (min (verses_read (readProgress today v)) (int (length (loadPlan v)))))) (length (loadPlan v))))
     (v\<lparr> mapFile := Some (seedMap s (min (verses_read (readProgress today v)) (int (length (loadPlan v))))) \<rparr>))"
  by (simp add: seedMapFromProgress_def Let_def)

lemma rebuild_progress:
  "progressFile (rebuildMapFromEventsCommand v) =
   progressFile (updateProgressFrontmatter
     (firstUnread (computeFromMap (Some (rebuildMap (case eventsFile v of None \<Rightarrow> [] | Some t \<Rightarrow> t))) (length (loadPlan v))))
     (uniqueRead (computeFromMap (Some (rebuildMap (case eventsFile v of None \<Rightarrow> [] | Some t \<Rightarrow> t))) (length (loadPlan v))))
     (v\<lparr> mapFile := Some (rebuildMap (case eventsFile v of None \<Rightarrow> [] | Some t \<Rightarrow> t)) \<rparr>))"
  by (simp add: rebuildMapFromEventsCommand_def Let_def loadPlan_def)

lemma framed_seed: "framed (progressFile v) (progressFile (seedMapFromProgress today s v))"
  by (simp add: seed_progress framed_update)

lemma framed_recompute: "framed (progressFile v) (progressFile (recomputeProgressFromMapCommand v))"
  by (simp add: recomputeProgressFromMapCommand_def Let_def framed_update)

lemma framed_rebuild: "framed (progressFile v) (progressFile (rebuildMapFromEventsCommand v))"
  by (simp add: rebuild_progress framed_update)

text \<open>
  Claim C9. For every progress document, the merge-patch sets \<open>last_order\<close> and
  \<open>verses_read\<close> (adding a field that is missing) and leaves every other field of the
  frontmatter, their order and the body as they were; so do Finalize and the three
  maintenance commands.
\<close>

theorem snapshot_patch_frame:
  assumes "progressFile v = Some d"
  shows "progressFile (updateProgressFrontmatter lo vr v) =
           Some (d\<lparr> frontmatter := patchSnapshot lo vr (frontmatter d) \<rparr>) \<and>
         otherFields (patchSnapshot lo vr (frontmatter d)) = otherFields (frontmatter d) \<and>
         (\<forall>k. k \<noteq> ''last_order'' \<and> k \<noteq> ''verses_read'' \<longrightarrow>
              map_of (patchSnapshot lo vr (frontmatter d)) k = map_of (frontmatter d) k) \<and>
         map_of (patchSnapshot lo vr (frontmatter d)) ''last_order'' = Some (JNum (int lo)) \<and>
         map_of (patchSnapshot lo vr (frontmatter d)) ''verses_read'' = Some (JNum (int vr)) \<and>
         framed (Some d) (progressFile (finalizeBibleRead e s v)) \<and>
         framed (Some d) (progressFile (seedMapFromProgress today s v)) \<and>
         framed (Some d) (progressFile (recomputeProgressFromMapCommand v)) \<and>
         framed (Some d) (progressFile (rebuildMapFromEventsCommand v))"
  using assms framed_finalize [of v e s] framed_seed [of v today s] framed_recompute [of v]
    framed_rebuild [of v]
  by (simp add: update_progress_present otherFields_patch map_of_patch)

theorem snapshot_patch_frame_witness:
  "progressFile (updateProgressFrontmatter 3 2 (setupVault\<lparr> progressFile := Some sparseProgress \<rparr>)) =
     Some \<lparr> frontmatter = [(''total_verses'', JNum 100), (''note'', JStr ''keep me''),
                           (''last_order'', JNum 3), (''verses_read'', JNum 2)],
            body = ''# Reading progress'' \<rparr> \<and>
   otherFields (patchSnapshot 3 2 (frontmatter sparseProgress)) =
     [(''total_verses'', JNum 100), (''note'', JStr ''keep me'')] \<and>
   map_of (patchSnapshot 3 2 (frontmatter sparseProgress)) ''note'' = Some (JStr ''keep me'')"
  using snapshot_patch_frame [of "setupVault\<lparr> progressFile := Some sparseProgress \<rparr>" sparseProgress 3 2]
  by (simp add: sparseProgress_def patchSnapshot_def otherFields_def)

lemma snapshotFresh_cong:
  "progressFile a = progressFile b \<Longrightarrow> mapFile a = mapFile b \<Longrightarrow> planFile a = planFile b \<Longrightarrow>
   snapshotFresh a = snapshotFresh b"
proof -
  assume p: "progressFile a = progressFile b" and "mapFile a = mapFile b" "planFile a = planFile b"
  then have "derivedSnapshot a = derivedSnapshot b"
    by (simp add: derivedSnapshot_def loadMap_def loadPlan_def)
  with p show ?thesis by (simp add: snapshotFresh_def split: option.splits)
qed

lemma fresh_update:
  assumes "progressFile v = Some d"
  shows "snapshotFresh
           (updateProgressFrontmatter
              (firstUnread (computeFromMap (Some m) (length (loadPlan v))))
              (uniqueRead (computeFromMap (Some m) (length (loadPlan v))))
              (v\<lparr> mapFile := Some m \<rparr>))"
  using assms
  by (simp add: snapshotFresh_def snapshotOf_def derivedSnapshot_def update_progress_present
      map_of_patch loadMap_def loadPlan_def Let_def)

lemma absent_update: "progressFile v = None \<Longrightarrow> progressFile (updateProgressFrontmatter lo vr (v\<lparr> mapFile := m \<rparr>)) = None"
  by (simp add: updateProgressFrontmatter_def)

lemma fresh_finalize:
  assumes "progressFile v = Some d" "checkedMatches content \<noteq> []"
  shows "snapshotFresh (finalizeBibleRead (Some content) s v)"
proof -
  let ?m = "foldl (stampIndex s) (loadMap v) (sortedIndices content)"
  let ?u = "updateProgressFrontmatter
              (firstUnread (computeFromMap (Some ?m) (length (loadPlan v))))
              (uniqueRead (computeFromMap (Some ?m) (length (loadPlan v))))
              (v\<lparr> mapFile := Some ?m \<rparr>)"
  have "snapshotFresh (finalizeBibleRead (Some content) s v) = snapshotFresh ?u"
    using assms(2)
    by (intro snapshotFresh_cong)
       (simp_all add: finalize_progress finalize_map finalize_plan update_progress_other_files)
  then show ?thesis using fresh_update [OF assms(1)] by simp
qed

lemma fresh_seed:
  assumes "progressFile v = Some d"
  shows "snapshotFresh (seedMapFromProgress today s v)"
  using fresh_update [OF assms] by (simp add: seedMapFromProgress_def Let_def)

lemma fresh_recompute:
  assumes "progressFile v = Some d"
  shows "snapshotFresh (recomputeProgressFromMapCommand v)"
  using assms
  by (simp add: recomputeProgressFromMapCommand_def snapshotFresh_def snapshotOf_def derivedSnapshot_def
      update_progress_present map_of_patch Let_def loadMap_def loadPlan_def)

lemma fresh_rebuild:
  assumes "progressFile v = Some d"
  shows "snapshotFresh (rebuildMapFromEventsCommand v)"
proof -
  have "loadPlan (v\<lparr> mapFile := Some m \<rparr>) = loadPlan v" for m
    by (simp add: loadPlan_def)
  then show ?thesis
    using fresh_update [OF assms] by (simp add: rebuildMapFromEventsCommand_def Let_def)
qed

lemma absent_commands:
  assumes "progressFile v = None"
  shows "progressFile (finalizeBibleRead e s v) = None"
    and "progressFile (seedMapFromProgress today s v) = None"
    and "progressFile (recomputeProgressFromMapCommand v) = None"
    and "progressFile (rebuildMapFromEventsCommand v) = None"
  using assms
  by (simp_all add: finalize_progress seed_progress rebuild_progress recomputeProgressFromMapCommand_def
      Let_def absent_update update_progress_absent split: option.splits)

text \<open>
  Claim C7, as the code has it. When the progress document is absent, \<^verbatim>\<open>readProgress\<close>
  returns the defaults (31102 verses, start today, 365 days) and creates nothing, and
  Finalize and the three maintenance commands leave the document absent
  (\<^verbatim>\<open>updateProgressFrontmatter\<close> returns when the file is missing). When the document
  exists, it exists after Finalize with at least one checked item and after each of the
  three maintenance commands, and holds the values derived from the map and the plan.
\<close>

theorem snapshot_after_reconciliation:
  "(progressFile v = None \<longrightarrow>
      readProgress today v = defaultProgress today \<and>
      progressFile (finalizeBibleRead e s v) = None \<and>
      progressFile (seedMapFromProgress today s v) = None \<and>
      progressFile (recomputeProgressFromMapCommand v) = None \<and>
      progressFile (rebuildMapFromEventsCommand v) = None) \<and>
   (progressFile v \<noteq> None \<longrightarrow>
      (checkedMatches content \<noteq> [] \<longrightarrow> snapshotFresh (finalizeBibleRead (Some content) s v)) \<and>
      snapshotFresh (seedMapFromProgress today s v) \<and>
      snapshotFresh (recomputeProgressFromMapCommand v) \<and>
      snapshotFresh (rebuildMapFromEventsCommand v))"
proof (cases "progressFile v")
  case None
  then show ?thesis
    using absent_commands [OF None]
    by (simp add: readProgress_def defaultProgress_def)
next
  case (Some d)
  then show ?thesis
    using fresh_finalize [OF Some] fresh_seed [OF Some] fresh_recompute [OF Some] fresh_rebuild [OF Some]
    by simp
qed

text \<open>
  Claim C7 as it is stated fails: with no progress document, none of the four commands
  creates one.
\<close>

theorem snapshot_not_created_counterexample:
  "progressFile noProgressVault = None \<and>
   progressFile (finalizeBibleRead (Some checkedDoc) ''2025-10-07T08:00:00'' noProgressVault) = None \<and>
   progressFile (seedMapFromProgress ''2025-10-07'' ''2025-10-07T08:00:00'' noProgressVault) = None \<and>
   progressFile (recomputeProgressFromMapCommand noProgressVault) = None \<and>
   progressFile (rebuildMapFromEventsCommand noProgressVault) = None"
  by (simp add: noProgressVault_def setupVault_def finalize_progress seed_progress rebuild_progress
      recomputeProgressFromMapCommand_def Let_def updateProgressFrontmatter_def split: option.splits)

theorem snapshot_after_reconciliation_witness:
  "readProgress ''2025-10-07'' noProgressVault = defaultProgress ''2025-10-07'' \<and>
   progressFile (recomputeProgressFromMapCommand noProgressVault) = None \<and>
   checkedMatches checkedDoc \<noteq> [] \<and>
   snapshotFresh (finalizeBibleRead (Some checkedDoc) ''2025-10-07T08:00:00'' setupVault) \<and>
   snapshotFresh (seedMapFromProgress ''2025-10-07'' ''2025-10-07T08:00:00'' setupVault) \<and>
   snapshotFresh (recomputeProgressFromMapCommand setupVault) \<and>
   snapshotFresh (rebuildMapFromEventsCommand setupVault)"
proof -
  have a: "progressFile noProgressVault = None" by (simp add: noProgressVault_def)
  have b: "progressFile setupVault \<noteq> None" by (simp add: setupVault_def)
  have c: "checkedMatches checkedDoc \<noteq> []" by code_simp
  from snapshot_after_reconciliation [of noProgressVault "''2025-10-07''"] a
       snapshot_after_reconciliation [of setupVault "''2025-10-07''" _ "''2025-10-07T08:00:00''" checkedDoc] b c
  show ?thesis by simp
qed

subsection \<open>Finalize: the map, the checked indices and the plan\<close>

lemma stamped_entry:
  "stamped s m i \<Longrightarrow> m i = Some (JArr (arrayAt m i))"
  by (auto simp: stamped_def arrayAt_def lastElem_def split: option.splits json.splits if_splits)

lemma stampIndex_stamped_id: "stamped s m i \<Longrightarrow> stampIndex s m i = m"
proof -
  assume a: "stamped s m i"
  then have "m(i \<mapsto> JArr (arrayAt m i)) = m"
    using stamped_entry [OF a] by (simp add: fun_upd_idem)
  with a show ?thesis by (simp add: stampIndex_def stamped_def Let_def)
qed

lemma arrayAt_upd: "arrayAt (m(i \<mapsto> JArr xs)) j = (if j = i then xs else arrayAt m j)"
  by (simp add: arrayAt_def)

lemma stampIndex_makes_stamped: "stamped s (stampIndex s m i) i"
  by (simp add: stamped_def stampIndex_def Let_def arrayAt_upd lastElem_def)

lemma stampIndex_other: "j \<noteq> i \<Longrightarrow> stampIndex s m i j = m j"
  by (simp add: stampIndex_def Let_def)

lemma stampIndex_keeps_stamped: "stamped s m j \<Longrightarrow> stamped s (stampIndex s m i) j"
proof (cases "j = i")
  case True
  then show ?thesis by (simp add: stampIndex_makes_stamped)
next
  case False
  assume "stamped s m j"
  with False show ?thesis by (simp add: stamped_def arrayAt_def stampIndex_other)
qed

lemma fold_keeps_stamped: "stamped s m j \<Longrightarrow> stamped s (foldl (stampIndex s) m is) j"
  by (induction "is" arbitrary: m) (auto simp: stampIndex_keeps_stamped)

lemma fold_makes_stamped: "j \<in> set is \<Longrightarrow> stamped s (foldl (stampIndex s) m is) j"
proof (induction "is" arbitrary: m)
  case Nil
  then show ?case by simp
next
  case (Cons i "is")
  show ?case
  proof (cases "j = i")
    case True
    then show ?thesis by (simp add: fold_keeps_stamped stampIndex_makes_stamped)
  next
    case False
    with Cons show ?thesis by simp
  qed
qed

lemma fold_stamped_id: "list_all (stamped s m) is \<Longrightarrow> foldl (stampIndex s) m is = m"
  by (induction "is") (auto simp: stampIndex_stamped_id)

lemma fold_twice: "foldl (stampIndex s) (foldl (stampIndex s) m is) is = foldl (stampIndex s) m is"
  by (rule fold_stamped_id) (simp add: list_all_iff fold_makes_stamped)

lemma loadMap_finalize:
  "loadMap (finalizeBibleRead e s v) =
     (case e of None \<Rightarrow> loadMap v
      | Some content \<Rightarrow>
         if checkedMatches content = [] then loadMap v
         else foldl (stampIndex s) (loadMap v) (sortedIndices content))"
  by (simp add: loadMap_def finalize_map split: option.splits)

lemma finalize_twice_map:
  "mapFile (finalizeBibleRead e s (finalizeBibleRead e s v)) = mapFile (finalizeBibleRead e s v)"
proof (cases e)
  case None
  then show ?thesis by (simp add: finalize_map)
next
  case (Some content)
  show ?thesis
  proof (cases "checkedMatches content = []")
    case True
    then show ?thesis unfolding Some by (simp add: finalize_map)
  next
    case False
    let ?v' = "finalizeBibleRead (Some content) s v"
    have l: "loadMap ?v' = foldl (stampIndex s) (loadMap v) (sortedIndices content)"
      using False by (simp add: loadMap_finalize)
    have "mapFile (finalizeBibleRead (Some content) s ?v') =
            Some (foldl (stampIndex s) (loadMap ?v') (sortedIndices content))"
      using False by (subst finalize_map) simp
    also have "\<dots> = Some (foldl (stampIndex s) (loadMap v) (sortedIndices content))"
      by (simp only: l fold_twice)
    also have "\<dots> = mapFile ?v'"
      using False by (subst finalize_map) simp
    finally show ?thesis unfolding Some .
  qed
qed

text \<open>
  Claim C3. Finalize run twice on the same document with the same stamp leaves the map
  after the second run as it was after the first. More generally, when the entry of
  every checked index already ends with the current stamp, Finalize leaves the map as it
  is: no index gains a second copy of the stamp.
\<close>

theorem finalize_idempotent_same_stamp:
  "mapFile (finalizeBibleRead e s (finalizeBibleRead e s v)) = mapFile (finalizeBibleRead e s v) \<and>
   (list_all (stamped s (loadMap v)) (sortedIndices content) \<longrightarrow>
      loadMap (finalizeBibleRead (Some content) s v) = loadMap v)"
  by (simp add: finalize_twice_map loadMap_finalize fold_stamped_id)

theorem finalize_idempotent_same_stamp_witness:
  "mapFile (finalizeBibleRead (Some checkedDoc) ''2025-10-07T08:00:00''
      (finalizeBibleRead (Some checkedDoc) ''2025-10-07T08:00:00'' setupVault)) =
     Some [0 \<mapsto> JArr [JStr ''2025-10-07T08:00:00'']] \<and>
   list_all (stamped ''2025-10-07T08:00:00'' [0 \<mapsto> JArr [JStr ''2025-10-07T08:00:00'']])
     (sortedIndices checkedDoc) \<and>
   loadMap (finalizeBibleRead (Some checkedDoc) ''2025-10-07T08:00:00''
     (setupVault\<lparr> mapFile := Some [0 \<mapsto> JArr [JStr ''2025-10-07T08:00:00'']] \<rparr>)) =
     [0 \<mapsto> JArr [JStr ''2025-10-07T08:00:00'']]"
proof -
  have i: "sortedIndices checkedDoc = [0]" by code_simp
  have c: "checkedMatches checkedDoc \<noteq> []" by code_simp
  have st: "list_all (stamped ''2025-10-07T08:00:00'' [0 \<mapsto> JArr [JStr ''2025-10-07T08:00:00'']])
     (sortedIndices checkedDoc)"
    by (simp add: i stamped_def arrayAt_def lastElem_def)
  have one: "mapFile (finalizeBibleRead (Some checkedDoc) ''2025-10-07T08:00:00'' setupVault) =
     Some [0 \<mapsto> JArr [JStr ''2025-10-07T08:00:00'']]"
    using c by (simp add: finalize_map i loadMap_def setupVault_def stampIndex_def arrayAt_def lastElem_def)
  have l: "loadMap (setupVault\<lparr> mapFile := Some [0 \<mapsto> JArr [JStr ''2025-10-07T08:00:00'']] \<rparr>) =
      [0 \<mapsto> JArr [JStr ''2025-10-07T08:00:00'']]"
    by (simp add: loadMap_def)
  from finalize_idempotent_same_stamp [of "Some checkedDoc" "''2025-10-07T08:00:00''" setupVault]
       finalize_idempotent_same_stamp [of _ "''2025-10-07T08:00:00''"
         "setupVault\<lparr> mapFile := Some [0 \<mapsto> JArr [JStr ''2025-10-07T08:00:00'']] \<rparr>" checkedDoc]
       st one l
  show ?thesis by simp
qed




lemma sortedIndices_set: "set (sortedIndices content) = set (checkedMatches content)"
  by (simp add: sortedIndices_def)

lemma eventRows_Cons:
  "eventRows s p (i # is) =
     (case planAt p i of None \<Rightarrow> [] | Some v \<Rightarrow> eventRow s i v) @ eventRows s p is"
  by (simp add: eventRows_def)

lemma eventRows_skip_missing:
  "planAt p idx = None \<Longrightarrow> eventRows s p is = eventRows s p (removeAll idx is)"
  by (induction "is") (auto simp: eventRows_Cons eventRows_def)

lemma computeFromMap_cong:
  assumes "\<forall>i<tot. entry m i = entry m' i"
  shows "computeFromMap m tot = computeFromMap m' tot"
proof -
  have f: "filter (\<lambda>j. has (entry m j)) [0..<tot] = filter (\<lambda>j. has (entry m' j)) [0..<tot]"
    using assms by (intro filter_cong) auto
  have g: "find (\<lambda>j. \<not> has (entry m j)) [0..<tot] = find (\<lambda>j. \<not> has (entry m' j)) [0..<tot]"
    using assms by (intro find_cong) auto
  have "uniqueRead (computeFromMap m tot) = uniqueRead (computeFromMap m' tot)"
    by (simp add: computeFromMap_uniqueRead f)
  moreover have "firstUnread (computeFromMap m tot) = firstUnread (computeFromMap m' tot)"
    by (simp add: computeFromMap_firstUnread g)
  ultimately show ?thesis by simp
qed

lemma computeFromMap_beyond:
  "tot \<le> idx \<Longrightarrow> computeFromMap (Some (m(idx := x))) tot = computeFromMap (Some m) tot"
  by (rule computeFromMap_cong) (simp add: entry_def)

lemma stamped_has: "stamped s m i \<Longrightarrow> has (m i)"
proof -
  assume a: "stamped s m i"
  then have "arrayAt m i \<noteq> []" by (auto simp: stamped_def lastElem_def)
  with stamped_entry [OF a] show ?thesis by (metis has.simps(2))
qed

text \<open>
  Claim C8, as the code has it. A completed index without a plan entry gives no event
  row (the rows are those of the other completed indices), its map entry ends with the
  stamp, and when the progress document exists the snapshot holds the counts of the
  updated map over the indices below the plan length. The index is counted in
  \<open>uniqueRead\<close> when it lies below the plan length (a plan entry that is null); an index
  at or beyond the plan length is in the map but changes neither count.
\<close>

theorem finalize_index_without_plan_entry:
  assumes "checkedMatches content \<noteq> []"
    and "idx \<in> set (sortedIndices content)"
    and "planAt (loadPlan v) idx = None"
  shows "eventsFile (finalizeBibleRead (Some content) s v) =
           Some (appendLedger ''timestamp'' eventsHeader
                   (eventRows s (loadPlan v) (removeAll idx (sortedIndices content))) (eventsFile v)) \<and>
         stamped s (loadMap (finalizeBibleRead (Some content) s v)) idx \<and>
         (progressFile v \<noteq> None \<longrightarrow> snapshotFresh (finalizeBibleRead (Some content) s v)) \<and>
         (idx < length (loadPlan v) \<longrightarrow>
            uniqueRead (computeFromMap (Some (loadMap (finalizeBibleRead (Some content) s v))) (length (loadPlan v))) =
            Suc (uniqueRead (computeFromMap
                   (Some ((loadMap (finalizeBibleRead (Some content) s v))(idx := None))) (length (loadPlan v))))) \<and>
         (length (loadPlan v) \<le> idx \<longrightarrow>
            computeFromMap (Some (loadMap (finalizeBibleRead (Some content) s v))) (length (loadPlan v)) =
            computeFromMap (Some ((loadMap (finalizeBibleRead (Some content) s v))(idx := None))) (length (loadPlan v)))"
proof -
  let ?v' = "finalizeBibleRead (Some content) s v"
  have ev: "eventsFile ?v' =
           Some (appendLedger ''timestamp'' eventsHeader
                   (eventRows s (loadPlan v) (removeAll idx (sortedIndices content))) (eventsFile v))"
    using assms(1) eventRows_skip_missing [OF assms(3), of s "sortedIndices content"]
    by (simp add: finalize_events)
  have st: "stamped s (loadMap ?v') idx"
    using assms(1,2) by (simp add: loadMap_finalize fold_makes_stamped)
  have fr: "progressFile v \<noteq> None \<longrightarrow> snapshotFresh ?v'"
    using fresh_finalize [OF _ assms(1), of v _ s] by auto
  have cnt: "idx < length (loadPlan v) \<longrightarrow>
            uniqueRead (computeFromMap (Some (loadMap ?v')) (length (loadPlan v))) =
            Suc (uniqueRead (computeFromMap (Some ((loadMap ?v')(idx := None))) (length (loadPlan v))))"
    using uniqueRead_counts_read_index [of idx "length (loadPlan v)" "loadMap ?v'"] stamped_has [OF st]
    by simp
  have bey: "length (loadPlan v) \<le> idx \<longrightarrow>
            computeFromMap (Some (loadMap ?v')) (length (loadPlan v)) =
            computeFromMap (Some ((loadMap ?v')(idx := None))) (length (loadPlan v))"
    by (simp add: computeFromMap_beyond)
  from ev st fr cnt bey show ?thesis by simp
qed

lemma beyond_idx: "sortedIndices beyondDoc = [5]" by code_simp

lemma beyond_matches: "checkedMatches beyondDoc \<noteq> []" by code_simp

lemma beyond_map:
  "loadMap (finalizeBibleRead (Some beyondDoc) ''2025-10-07T08:00:00'' setupVault) =
     [5 \<mapsto> JArr [JStr ''2025-10-07T08:00:00'']]"
  using beyond_matches
  by (subst loadMap_finalize)
     (simp add: beyond_idx loadMap_def setupVault_def stampIndex_def arrayAt_def lastElem_def)

text \<open>
  Claim C8 as it is stated fails for an index beyond the plan: index 5 of a one-verse
  plan is stamped in the map, and the counts written to the snapshot are those of the
  map before.
\<close>

theorem finalize_index_beyond_plan_counterexample:
  "planAt (loadPlan setupVault) 5 = None \<and>
   sortedIndices beyondDoc = [5] \<and>
   loadMap (finalizeBibleRead (Some beyondDoc) ''2025-10-07T08:00:00'' setupVault) 5 =
     Some (JArr [JStr ''2025-10-07T08:00:00'']) \<and>
   computeFromMap (Some (loadMap (finalizeBibleRead (Some beyondDoc) ''2025-10-07T08:00:00'' setupVault)))
       (length (loadPlan setupVault)) = \<lparr> uniqueRead = 0, firstUnread = 0 \<rparr> \<and>
   computeFromMap (Some (loadMap setupVault)) (length (loadPlan setupVault)) =
     \<lparr> uniqueRead = 0, firstUnread = 0 \<rparr> \<and>
   progressFile (finalizeBibleRead (Some beyondDoc) ''2025-10-07T08:00:00'' setupVault) =
     Some setupProgress"
proof -
  have p: "loadPlan setupVault = [Some exampleItem]" by (simp add: loadPlan_def setupVault_def)
  have e: "loadMap setupVault = Map.empty" by (simp add: loadMap_def setupVault_def)
  have c: "computeFromMap (Some [5 \<mapsto> JArr [JStr ''2025-10-07T08:00:00'']]) 1 =
             \<lparr> uniqueRead = 0, firstUnread = 0 \<rparr>"
    using computeFromMap_beyond [of 1 5 Map.empty "Some (JArr [JStr ''2025-10-07T08:00:00''])"]
    by (simp add: computeFromMap_empty)
  have m: "foldl (stampIndex ''2025-10-07T08:00:00'') (loadMap setupVault) (sortedIndices beyondDoc) =
      [5 \<mapsto> JArr [JStr ''2025-10-07T08:00:00'']]"
    by (simp add: beyond_idx e stampIndex_def arrayAt_def lastElem_def)
  have u: "progressFile (updateProgressFrontmatter 0 0 (setupVault\<lparr> mapFile := Some x \<rparr>)) =
            Some setupProgress" for x
    by (simp add: updateProgressFrontmatter_def processFrontMatter_def setupVault_def
        setupProgress_def patchSnapshot_def)
  have pr: "progressFile (finalizeBibleRead (Some beyondDoc) ''2025-10-07T08:00:00'' setupVault) =
     Some setupProgress"
    using beyond_matches c by (simp add: finalize_progress m p u)
  show ?thesis
    using c by (simp add: p beyond_idx beyond_map e computeFromMap_empty pr planAt_def)
qed

theorem finalize_index_without_plan_entry_witness:
  "stamped ''2025-10-07T08:00:00''
     (loadMap (finalizeBibleRead (Some beyondDoc) ''2025-10-07T08:00:00'' setupVault)) 5 \<and>
   eventsFile (finalizeBibleRead (Some beyondDoc) ''2025-10-07T08:00:00'' setupVault) =
     Some (setupEventsFile @ [nl] @ eventsHeader) \<and>
   snapshotFresh (finalizeBibleRead (Some beyondDoc) ''2025-10-07T08:00:00'' setupVault) \<and>
   computeFromMap (Some (loadMap (finalizeBibleRead (Some beyondDoc) ''2025-10-07T08:00:00'' setupVault))) 1 =
     computeFromMap (Some ((loadMap (finalizeBibleRead (Some beyondDoc) ''2025-10-07T08:00:00'' setupVault))(5 := None))) 1 \<and>
   uniqueRead (computeFromMap (Some (loadMap (finalizeBibleRead (Some checkedDoc) ''2025-10-07T08:00:00'' nullEntryVault))) 2) =
     Suc (uniqueRead (computeFromMap (Some ((loadMap (finalizeBibleRead (Some checkedDoc) ''2025-10-07T08:00:00'' nullEntryVault))(0 := None))) 2))"
proof -
  have p: "loadPlan setupVault = [Some exampleItem]" by (simp add: loadPlan_def setupVault_def)
  have a: "planAt (loadPlan setupVault) 5 = None" by (simp add: p planAt_def)
  have b: "5 \<in> set (sortedIndices beyondDoc)" by (simp add: beyond_idx)
  have h: "\<not> testHeader ''timestamp'' setupEventsFile" by code_simp
  have e: "eventsFile setupVault = Some setupEventsFile" "progressFile setupVault \<noteq> None"
    by (simp_all add: setupVault_def)
  have p2: "loadPlan nullEntryVault = [None, Some exampleItem]"
    by (simp add: loadPlan_def nullEntryVault_def)
  have a2: "planAt (loadPlan nullEntryVault) 0 = None" by (simp add: p2 planAt_def)
  have i2: "sortedIndices checkedDoc = [0]" by code_simp
  have c2: "checkedMatches checkedDoc \<noteq> []" by code_simp
  have b2: "0 \<in> set (sortedIndices checkedDoc)" by (simp add: i2)
  from finalize_index_without_plan_entry [OF beyond_matches b a, of "''2025-10-07T08:00:00''"] e h
  have first: "stamped ''2025-10-07T08:00:00''
     (loadMap (finalizeBibleRead (Some beyondDoc) ''2025-10-07T08:00:00'' setupVault)) 5 \<and>
   eventsFile (finalizeBibleRead (Some beyondDoc) ''2025-10-07T08:00:00'' setupVault) =
     Some (setupEventsFile @ [nl] @ eventsHeader) \<and>
   snapshotFresh (finalizeBibleRead (Some beyondDoc) ''2025-10-07T08:00:00'' setupVault) \<and>
   computeFromMap (Some (loadMap (finalizeBibleRead (Some beyondDoc) ''2025-10-07T08:00:00'' setupVault))) 1 =
     computeFromMap (Some ((loadMap (finalizeBibleRead (Some beyondDoc) ''2025-10-07T08:00:00'' setupVault))(5 := None))) 1"
    by (simp add: p beyond_idx eventRows_def appendLedger_def)
  from finalize_index_without_plan_entry [OF c2 b2 a2, of "''2025-10-07T08:00:00''"]
  have second: "uniqueRead (computeFromMap (Some (loadMap (finalizeBibleRead (Some checkedDoc) ''2025-10-07T08:00:00'' nullEntryVault))) 2) =
     Suc (uniqueRead (computeFromMap (Some ((loadMap (finalizeBibleRead (Some checkedDoc) ''2025-10-07T08:00:00'' nullEntryVault))(0 := None))) 2))"
    by (simp add: p2 numeral_2_eq_2)
  from first second show ?thesis by simp
qed

subsection \<open>Decimal numerals, splitting and trimming\<close>

lemma isDigit_cases:
  "isDigit c \<longleftrightarrow> c = CHR ''0'' \<or> c = CHR ''1'' \<or> c = CHR ''2'' \<or> c = CHR ''3'' \<or> c = CHR ''4'' \<or>
     c = CHR ''5'' \<or> c = CHR ''6'' \<or> c = CHR ''7'' \<or> c = CHR ''8'' \<or> c = CHR ''9''"
  by (auto simp: isDigit_def)

lemma digit_not_special:
  assumes "isDigit c"
  shows "\<not> isSpace c" and "c \<noteq> bar" and "c \<noteq> nl" and "c \<noteq> CHR ''-''"
  using assms by (auto simp: isDigit_cases isSpace_def bar_def nl_def)

lemma stampChar_not_special:
  assumes "stampChar c"
  shows "c \<noteq> bar" and "c \<noteq> nl"
  using assms by (auto simp: stampChar_def isDigit_cases bar_def nl_def)

lemma digitChar_table:
  "list_all (\<lambda>d. isDigit (digitChar d) \<and> digitVal (digitChar d) = d) [0, 1, 2, 3, 4, 5, 6, 7, 8, 9]"
  by code_simp

lemma digitChar_digit: "d < 10 \<Longrightarrow> isDigit (digitChar d) \<and> digitVal (digitChar d) = d"
proof -
  assume "d < 10"
  then have "d \<in> set [0, 1, 2, 3, 4, 5, 6, 7, 8, 9]"
    by simp arith
  with digitChar_table show ?thesis
    by (simp only: list_all_iff)
qed

lemma digitsVal_snoc: "digitsVal (ds @ [c]) = 10 * digitsVal ds + digitVal c"
  by (simp add: digitsVal_def)

lemma showNat_digits: "list_all isDigit (showNat n) \<and> showNat n \<noteq> [] \<and> digitsVal (showNat n) = n"
proof (induction n rule: showNat.induct)
  case (1 n)
  show ?case
  proof (cases "n < 10")
    case True
    then show ?thesis
      using digitChar_digit [of n] by (subst (1 2 3) showNat.simps) (simp add: digitsVal_def)
  next
    case False
    then have ih: "list_all isDigit (showNat (n div 10)) \<and> digitsVal (showNat (n div 10)) = n div 10"
      using 1 by simp
    have d: "isDigit (digitChar (n mod 10)) \<and> digitVal (digitChar (n mod 10)) = n mod 10"
      by (rule digitChar_digit) simp
    show ?thesis
      using False ih d by (subst (1 2 3) showNat.simps) (simp add: digitsVal_snoc)
  qed
qed

lemma jsNumber_showNat: "jsNumber (showNat n) = Some n"
  using showNat_digits [of n] by (simp add: jsNumber_def)

lemma splitOn_nonempty: "splitOn c s \<noteq> []"
  by (induction s) (auto split: list.splits)

lemma splitOn_append: "splitOn c (a @ c # b) = splitOn c a @ splitOn c b"
proof (induction a)
  case Nil
  then show ?case by simp
next
  case (Cons x a)
  then show ?case
    using splitOn_nonempty [of c a] by (cases "splitOn c a") auto
qed

lemma splitOn_none: "c \<notin> set s \<Longrightarrow> splitOn c s = [s]"
  by (induction s) auto

lemma splitOn_piece: "c \<notin> set a \<Longrightarrow> splitOn c (a @ c # b) = a # splitOn c b"
  by (simp add: splitOn_append splitOn_none)

lemma splitOn_length: "length (splitOn c s) \<ge> 1"
  using splitOn_nonempty [of c s] by (cases "splitOn c s") auto

lemma trim_padded:
  assumes "s \<noteq> []" "\<not> isSpace (hd s)" "\<not> isSpace (last s)"
  shows "trim (CHR '' '' # s @ '' '') = s"
proof -
  obtain x xs where s: "s = x # xs" using assms(1) by (cases s) auto
  have sp: "isSpace CHR '' ''" by (simp add: isSpace_def)
  have a: "dropWhile isSpace (CHR '' '' # s @ '' '') = s @ '' ''"
    using assms(2) sp by (simp add: s)
  have "rev s \<noteq> []" using assms(1) by simp
  then obtain y ys where r: "rev s = y # ys" by (cases "rev s") auto
  then have "y = last s" using assms(1) by (metis hd_rev list.sel(1))
  then have b: "dropWhile isSpace (rev (s @ '' '')) = rev s"
    using assms(3) sp by (simp add: r)
  show ?thesis by (simp only: trim_def a b rev_rev_ident)
qed

subsection \<open>Rows of the events table\<close>

lemma eventRow_rowLine: "eventRow s i v = rowLine s i v @ [nl]"
  by (simp add: eventRow_def rowLine_def)

lemma eventsHeader_lines: "eventsHeader = ledgerOf [headerLine, sepLine]"
  by (simp add: eventsHeader_def ledgerOf_def headerLine_def sepLine_def)

lemma setupEventsFile_lines: "setupEventsFile = ledgerOf [headerLine, sepLine]"
  by (simp add: setupEventsFile_def ledgerOf_def headerLine_def sepLine_def)

lemma ledgerOf_append: "ledgerOf (a @ b) = ledgerOf a @ ledgerOf b"
  by (simp add: ledgerOf_def)

lemma ledgerOf_Cons: "ledgerOf (l # ls) = l @ nl # ledgerOf ls"
  by (simp add: ledgerOf_def)

lemma splitOn_ledgerOf:
  "list_all singleLine ls \<Longrightarrow> splitOn nl (ledgerOf ls) = ls @ [[]]"
proof (induction ls)
  case Nil
  then show ?case by (simp add: ledgerOf_def)
next
  case (Cons l ls)
  then show ?case
    by (simp add: ledgerOf_Cons splitOn_piece singleLine_def)
qed

lemma replayLine_lineIdx:
  "replayLine m l =
     (case lineIdx l of None \<Rightarrow> m | Some i \<Rightarrow> stampIndex (trim (splitOn bar l ! 1)) m i)"
  by (auto simp: replayLine_def lineIdx_def Let_def split: option.splits)

lemma has_stampIndex: "has (stampIndex s m i j) = (j = i \<or> has (m j))"
proof (cases "j = i")
  case False
  then show ?thesis by (simp add: stampIndex_other)
next
  case True
  have "stamped s (stampIndex s m i) i" by (rule stampIndex_makes_stamped)
  then show ?thesis using True stamped_has by blast
qed

lemma has_fold_stamp: "has (foldl (stampIndex s) m is j) = (has (m j) \<or> j \<in> set is)"
  by (induction "is" arbitrary: m) (auto simp: has_stampIndex)

lemma has_replayLine: "has (replayLine m l j) = (has (m j) \<or> lineIdx l = Some j)"
  by (auto simp: replayLine_lineIdx has_stampIndex split: option.splits)

lemma has_fold_replay:
  "has (foldl replayLine m ls j) = (has (m j) \<or> (\<exists>l\<in>set ls. lineIdx l = Some j))"
  by (induction ls arbitrary: m) (auto simp: has_replayLine)

lemma stampShape_props:
  assumes "stampShape s"
  shows "s \<noteq> []" and "bar \<notin> set s" and "nl \<notin> set s"
    and "\<not> isSpace (hd s)" and "\<not> isSpace (last s)" and "hd s \<noteq> CHR ''-''"
proof -
  show ne: "s \<noteq> []" using assms by (auto simp: stampShape_def)
  have all: "\<forall>c\<in>set s. stampChar c" using assms by (simp add: stampShape_def list_all_iff)
  show "bar \<notin> set s" using all stampChar_not_special(1) by blast
  show "nl \<notin> set s" using all stampChar_not_special(2) by blast
  have "isDigit (hd s)" "isDigit (last s)" using assms by (simp_all add: stampShape_def)
  then show "\<not> isSpace (hd s)" "\<not> isSpace (last s)" "hd s \<noteq> CHR ''-''"
    by (simp_all add: digit_not_special)
qed

lemma showNat_props:
  shows "showNat n \<noteq> []" and "bar \<notin> set (showNat n)" and "nl \<notin> set (showNat n)"
    and "\<not> isSpace (hd (showNat n))" and "\<not> isSpace (last (showNat n))"
proof -
  have all: "\<forall>c\<in>set (showNat n). isDigit c" using showNat_digits [of n] by (simp add: list_all_iff)
  show ne: "showNat n \<noteq> []" using showNat_digits [of n] by simp
  show "bar \<notin> set (showNat n)" using all digit_not_special(2) by blast
  show "nl \<notin> set (showNat n)" using all digit_not_special(3) by blast
  have "isDigit (hd (showNat n))" "isDigit (last (showNat n))" using all ne by simp_all
  then show "\<not> isSpace (hd (showNat n))" "\<not> isSpace (last (showNat n))"
    by (simp_all add: digit_not_special)
qed

lemma rowLine_shape:
  "rowLine s i v =
     [] @ bar # ((CHR '' '' # s @ '' '') @ bar # ((CHR '' '' # showNat i @ '' '') @ bar #
       ((CHR '' '' # ref v @ '' '') @ bar # ((CHR '' '' # path v @ '' '') @ bar # []))))"
  by (simp add: rowLine_def bar_def)

lemma bar_not_space: "bar \<noteq> CHR '' ''"
  by (simp add: bar_def)

lemma splitOn_two_more: "length (splitOn c (a @ c # (b @ c # []))) \<ge> 3"
proof -
  have "splitOn c (a @ c # (b @ c # [])) = splitOn c a @ splitOn c b @ [[]]"
    by (simp only: splitOn_append splitOn.simps(1))
  then have "length (splitOn c (a @ c # (b @ c # []))) = length (splitOn c a) + length (splitOn c b) + 1"
    by (simp only: length_append) simp
  then show ?thesis
    using splitOn_length [of c a] splitOn_length [of c b] by linarith
qed

lemma splitOn_rowLine:
  assumes "stampShape s"
  shows "\<exists>rest. splitOn bar (rowLine s i v) =
           [] # (CHR '' '' # s @ '' '') # (CHR '' '' # showNat i @ '' '') # rest \<and> length rest \<ge> 3"
proof -
  let ?A = "CHR '' '' # s @ '' ''"
  let ?B = "CHR '' '' # showNat i @ '' ''"
  let ?R = "(CHR '' '' # ref v @ '' '') @ bar # ((CHR '' '' # path v @ '' '') @ bar # [])"
  have a: "bar \<notin> set ?A" using stampShape_props(2) [OF assms] bar_not_space by auto
  have b: "bar \<notin> set ?B" using showNat_props(2) [of i] bar_not_space by auto
  have len: "length (splitOn bar ?R) \<ge> 3"
    by (rule splitOn_two_more)
  have "splitOn bar (rowLine s i v) = splitOn bar [] @ splitOn bar (?A @ bar # (?B @ bar # ?R))"
    by (simp only: rowLine_shape splitOn_append)
  also have "splitOn bar (?A @ bar # (?B @ bar # ?R)) = ?A # ?B # splitOn bar ?R"
    by (simp only: splitOn_piece [OF a] splitOn_piece [OF b])
  also have "splitOn bar [] @ (?A # ?B # splitOn bar ?R) = [] # ?A # ?B # splitOn bar ?R"
    by simp
  finally show ?thesis using len by blast
qed

lemma lineIdx_rowLine:
  assumes "stampShape s"
  shows "lineIdx (rowLine s i v) = Some i"
proof -
  obtain rest where sp: "splitOn bar (rowLine s i v) =
           [] # (CHR '' '' # s @ '' '') # (CHR '' '' # showNat i @ '' '') # rest" and len: "length rest \<ge> 3"
    using splitOn_rowLine [OF assms] by blast
  have t1: "trim (CHR '' '' # s @ '' '') = s"
    using stampShape_props [OF assms] by (intro trim_padded)
  have t2: "trim (CHR '' '' # showNat i @ '' '') = showNat i"
    using showNat_props [of i] by (intro trim_padded)
  show ?thesis
    using len stampShape_props(1) [OF assms]
    by (simp add: lineIdx_def sp t1 t2 jsNumber_showNat Let_def)
qed

lemma isTableLine_rowLine:
  assumes "stampShape s"
  shows "isTableLine (rowLine s i v)"
proof -
  obtain x xs where s: "s = x # xs" using stampShape_props(1) [OF assms] by (cases s) auto
  have x: "\<not> isSpace x" "x \<noteq> CHR ''-''"
    using stampShape_props(4,6) [OF assms] by (simp_all add: s)
  have sp: "isSpace CHR '' ''" by (simp add: isSpace_def)
  show ?thesis
    using x sp by (simp add: isTableLine_def rowLine_def s bar_def)
qed

lemma singleLine_rowLine:
  assumes "stampShape s" "singleLine (ref v)" "singleLine (path v)"
  shows "singleLine (rowLine s i v)"
  using assms stampShape_props(3) [OF assms(1)] showNat_props(3) [of i]
  by (simp add: singleLine_def rowLine_def nl_def)

lemma fixed_lines:
  "lineIdx headerLine = None" "isTableLine headerLine" "\<not> isTableLine sepLine" "\<not> isTableLine []"
  "singleLine headerLine" "singleLine sepLine" "singleLine []" "lineIdx [] = None" "lineIdx sepLine = None"
  by code_simp+

subsection \<open>The events file over a sequence of runs\<close>

lemma rowIdxs_append: "rowIdxs (a @ b) = rowIdxs a \<union> rowIdxs b"
  by (auto simp: rowIdxs_def)

lemma goodLines_append: "goodLines (a @ b) = (goodLines a \<and> goodLines b)"
  by (auto simp: goodLines_def)

lemma headed_append: "headed a \<Longrightarrow> a \<noteq> [] \<Longrightarrow> headed (a @ b)"
  by (auto simp: headed_def)

lemma goodLines_fixed: "goodLines [headerLine, sepLine]" "goodLines [[], headerLine, sepLine]"
  by (simp_all add: goodLines_def fixed_lines)

lemma rowIdxs_fixed: "rowIdxs [headerLine, sepLine] = {}" "rowIdxs [[], headerLine, sepLine] = {}"
  by (simp_all add: rowIdxs_def fixed_lines)

lemma headed_fixed: "headed ([headerLine, sepLine] @ b)" "headed ([[], headerLine, sepLine] @ b)"
  by (simp_all add: headed_def fixed_lines)

lemma eventRows_rowLines:
  "list_all (entryOk p) idxs \<Longrightarrow> eventRows s p idxs = ledgerOf (rowLines s p idxs)"
  by (induction idxs)
     (auto simp: eventRows_Cons eventRows_def rowLines_def ledgerOf_def eventRow_rowLine entryOk_def split: option.splits)

lemma goodLines_rowLines:
  "stampShape s \<Longrightarrow> list_all (entryOk p) idxs \<Longrightarrow> goodLines (rowLines s p idxs)"
  by (auto simp: goodLines_def rowLines_def list_all_iff entryOk_def isTableLine_rowLine
      singleLine_rowLine split: option.splits)

lemma rowIdxs_rowLines: "stampShape s \<Longrightarrow> rowIdxs (rowLines s p idxs) = set idxs"
  by (auto simp: rowIdxs_def rowLines_def lineIdx_rowLine)

lemma ledgerOf_Nil_iff: "ledgerOf ls = [] \<longleftrightarrow> ls = []"
  by (cases ls) (simp_all add: ledgerOf_def)

lemma ledgerInv_step:
  assumes inv: "ledgerInv e C" and s: "stampShape s" and ok: "list_all (entryOk p) idxs"
  shows "ledgerInv (Some (appendLedger ''timestamp'' eventsHeader (eventRows s p idxs) e)) (C \<union> set idxs)"
proof -
  let ?rl = "rowLines s p idxs"
  have rows: "eventRows s p idxs = ledgerOf ?rl" by (rule eventRows_rowLines [OF ok])
  have grl: "goodLines ?rl" by (rule goodLines_rowLines [OF s ok])
  have irl: "rowIdxs ?rl = set idxs" by (rule rowIdxs_rowLines [OF s])
  from inv obtain ls where e: "e = None \<and> ls = [] \<or> e = Some (ledgerOf ls)"
    and g: "goodLines ls" and h: "headed ls" and c: "rowIdxs ls = C"
    by (auto simp: ledgerInv_def)
  show ?thesis
  proof (cases e)
    case None
    with e have "ls = []" by auto
    with c have c0: "C = {}" by (simp add: rowIdxs_def)
    have "appendLedger ''timestamp'' eventsHeader (eventRows s p idxs) e =
            ledgerOf ([headerLine, sepLine] @ ?rl)"
      by (simp add: None appendLedger_def rows eventsHeader_lines ledgerOf_def)
    moreover have "goodLines ([headerLine, sepLine] @ ?rl)"
      by (simp only: goodLines_append goodLines_fixed grl)
    moreover have "rowIdxs ([headerLine, sepLine] @ ?rl) = C \<union> set idxs"
      by (simp only: rowIdxs_append rowIdxs_fixed irl c0)
    ultimately show ?thesis
      using headed_fixed(1) [of ?rl] by (auto simp: ledgerInv_def)
  next
    case (Some body0)
    with e have body0: "body0 = ledgerOf ls" by auto
    show ?thesis
    proof (cases "testHeader ''timestamp'' body0")
      case True
      then have "body0 \<noteq> []" by auto
      then have ne: "ls \<noteq> []" by (simp add: body0 ledgerOf_Nil_iff)
      have "appendLedger ''timestamp'' eventsHeader (eventRows s p idxs) e = ledgerOf (ls @ ?rl)"
        using True by (simp add: Some appendLedger_def rows body0 ledgerOf_def)
      moreover have "goodLines (ls @ ?rl)" by (simp only: goodLines_append g grl)
      moreover have "rowIdxs (ls @ ?rl) = C \<union> set idxs" by (simp only: rowIdxs_append irl c)
      moreover have "headed (ls @ ?rl)" by (rule headed_append [OF h ne])
      ultimately show ?thesis by (auto simp: ledgerInv_def)
    next
      case False
      have ap: "appendLedger ''timestamp'' eventsHeader (eventRows s p idxs) e =
              ledgerOf (ls @ ([[], headerLine, sepLine] @ ?rl))"
        using False
        by (simp add: Some appendLedger_def rows body0 eventsHeader_lines ledgerOf_def)
      have gl: "goodLines (ls @ ([[], headerLine, sepLine] @ ?rl))"
        by (simp only: goodLines_append g grl goodLines_fixed)
      have ri: "rowIdxs (ls @ ([[], headerLine, sepLine] @ ?rl)) = C \<union> set idxs"
        by (simp only: rowIdxs_append irl c rowIdxs_fixed) simp
      have hd: "headed (ls @ ([[], headerLine, sepLine] @ ?rl))"
      proof (cases "ls = []")
        case True
        then show ?thesis using headed_fixed(2) [of ?rl] by simp
      next
        case False
        then show ?thesis by (rule headed_append [OF h])
      qed
      from ap gl ri hd show ?thesis by (auto simp: ledgerInv_def)
    qed
  qed
qed

lemma freshLedger_inv: "freshLedger e \<Longrightarrow> ledgerInv e {}"
proof -
  assume "freshLedger e"
  then consider "e = None" | "e = Some []" | "e = Some setupEventsFile"
    by (auto simp: freshLedger_def)
  then show ?thesis
  proof cases
    case 1
    then show ?thesis by (auto simp: ledgerInv_def goodLines_def headed_def rowIdxs_def)
  next
    case 2
    have "[] = ledgerOf []" by (simp add: ledgerOf_def)
    with 2 show ?thesis
      by (auto simp: ledgerInv_def goodLines_def headed_def rowIdxs_def intro!: exI [of _ "[]"])
  next
    case 3
    then show ?thesis
      using goodLines_fixed(1) rowIdxs_fixed(1) headed_fixed(1) [of "[]"]
      by (auto simp: ledgerInv_def setupEventsFile_lines intro!: exI [of _ "[headerLine, sepLine]"])
  qed
qed

subsection \<open>Rebuilding the map from the ledger\<close>

lemma computeFromMap_has_cong:
  assumes "\<forall>i<tot. has (entry m i) = has (entry m' i)"
  shows "computeFromMap m tot = computeFromMap m' tot"
proof -
  have f: "filter (\<lambda>j. has (entry m j)) [0..<tot] = filter (\<lambda>j. has (entry m' j)) [0..<tot]"
    using assms by (intro filter_cong) auto
  have g: "find (\<lambda>j. \<not> has (entry m j)) [0..<tot] = find (\<lambda>j. \<not> has (entry m' j)) [0..<tot]"
    using assms by (intro find_cong) auto
  have "uniqueRead (computeFromMap m tot) = uniqueRead (computeFromMap m' tot)"
    by (simp add: computeFromMap_uniqueRead f)
  moreover have "firstUnread (computeFromMap m tot) = firstUnread (computeFromMap m' tot)"
    by (simp add: computeFromMap_firstUnread g)
  ultimately show ?thesis by simp
qed

lemma dataLines_ledgerOf:
  "goodLines ls \<Longrightarrow> dataLines (ledgerOf ls) = drop 1 (filter isTableLine ls)"
  by (simp add: dataLines_def goodLines_def splitOn_ledgerOf fixed_lines)

lemma has_rebuildMap:
  "has (rebuildMap t j) = (\<exists>l\<in>set (dataLines t). lineIdx l = Some j)"
  by (simp add: rebuildMap_def has_fold_replay)

lemma rebuild_reads_rows:
  assumes g: "goodLines ls" and h: "headed ls"
  shows "has (rebuildMap (ledgerOf ls) j) = (j \<in> rowIdxs ls)"
proof -
  have d: "dataLines (ledgerOf ls) = drop 1 (filter isTableLine ls)"
    by (rule dataLines_ledgerOf [OF g])
  show ?thesis
  proof
    assume "has (rebuildMap (ledgerOf ls) j)"
    then obtain l where l: "l \<in> set (drop 1 (filter isTableLine ls))" "lineIdx l = Some j"
      by (auto simp: has_rebuildMap d)
    from l(1) have "l \<in> set (filter isTableLine ls)" by (rule in_set_dropD)
    then have "l \<in> set ls" by simp
    with l(2) show "j \<in> rowIdxs ls" by (auto simp: rowIdxs_def)
  next
    assume "j \<in> rowIdxs ls"
    then obtain l where l: "l \<in> set ls" "lineIdx l = Some j" by (auto simp: rowIdxs_def)
    then have t: "isTableLine l" using g by (auto simp: goodLines_def)
    from l(1) have "ls \<noteq> []" by auto
    with h obtain rest where r: "filter isTableLine ls = headerLine # rest" by (auto simp: headed_def)
    have "l \<in> set (filter isTableLine ls)" using l(1) t by simp
    moreover have "l \<noteq> headerLine" using l(2) by (auto simp: fixed_lines)
    ultimately have "l \<in> set rest" by (simp add: r)
    then have "l \<in> set (drop 1 (filter isTableLine ls))" by (simp add: r)
    with l(2) show "has (rebuildMap (ledgerOf ls) j)" by (auto simp: has_rebuildMap d)
  qed
qed

lemma rebuild_empty: "has (rebuildMap [] j) = False"
  by (simp add: has_rebuildMap dataLines_def fixed_lines)

lemma rebuild_of_inv:
  assumes "ledgerInv e C"
  shows "has (rebuildMap (case e of None \<Rightarrow> [] | Some t \<Rightarrow> t) j) = (j \<in> C)"
proof -
  from assms obtain ls where e: "e = None \<and> ls = [] \<or> e = Some (ledgerOf ls)"
    and g: "goodLines ls" and h: "headed ls" and c: "rowIdxs ls = C"
    by (auto simp: ledgerInv_def)
  show ?thesis
  proof (cases e)
    case None
    with e c have "C = {}" by (auto simp: rowIdxs_def)
    with None show ?thesis by (simp add: rebuild_empty)
  next
    case (Some t)
    with e have "t = ledgerOf ls" by auto
    with Some show ?thesis using rebuild_reads_rows [OF g h, of j] c by simp
  qed
qed

lemma loadPlan_finalize: "loadPlan (finalizeBibleRead e s v) = loadPlan v"
  by (simp add: loadPlan_def finalize_plan)

lemma vaultInv_step:
  assumes inv: "vaultInv p v C" and run: "completeRun p (content, s)"
  shows "vaultInv p (finalizeBibleRead (Some content) s v) (C \<union> set (checkedMatches content))"
proof (cases "checkedMatches content = []")
  case True
  then have "finalizeBibleRead (Some content) s v = v" by (simp add: finalizeBibleRead_def)
  with True inv show ?thesis by simp
next
  case False
  have s: "stampShape s" using run by (simp add: completeRun_def)
  have "list_all (entryOk p) (checkedMatches content)"
    using run by (simp add: completeRun_def)
  then have ok: "list_all (entryOk p) (sortedIndices content)"
    by (simp add: list_all_iff sortedIndices_set)
  have p: "loadPlan v = p" using inv by (simp add: vaultInv_def)
  have m: "\<forall>j. has (loadMap (finalizeBibleRead (Some content) s v) j) =
             (j \<in> C \<union> set (checkedMatches content))"
    using inv False by (simp add: loadMap_finalize has_fold_stamp vaultInv_def sortedIndices_set)
  have "ledgerInv (eventsFile v) C" using inv by (simp add: vaultInv_def)
  from ledgerInv_step [OF this s ok]
  have l: "ledgerInv (eventsFile (finalizeBibleRead (Some content) s v)) (C \<union> set (checkedMatches content))"
    using False by (simp add: finalize_events p sortedIndices_set)
  from p m l show ?thesis by (simp add: vaultInv_def loadPlan_finalize)
qed

lemma vaultInv_runs:
  assumes "vaultInv p v C" and "list_all (completeRun p) runs"
  shows "\<exists>D. vaultInv p (finalizeAll runs v) D"
  using assms
proof (induction runs arbitrary: v C)
  case Nil
  then show ?case by (auto simp: finalizeAll_def)
next
  case (Cons run runs)
  obtain content s where r: "run = (content, s)" by (cases run)
  from Cons.prems have "completeRun p (content, s)" and rest: "list_all (completeRun p) runs"
    by (simp_all add: r)
  from vaultInv_step [OF Cons.prems(1) this(1)]
  have "vaultInv p (finalizeBibleRead (Some content) s v) (C \<union> set (checkedMatches content))" .
  from Cons.IH [OF this rest] show ?case by (simp add: finalizeAll_def r)
qed

lemma vaultInv_initial:
  assumes "loadMap v = Map.empty" and "freshLedger (eventsFile v)"
  shows "vaultInv (loadPlan v) v {}"
  using assms by (simp add: vaultInv_def freshLedger_inv)

lemma loadMap_rebuild:
  "loadMap (rebuildMapFromEventsCommand v) = rebuildMap (eventsText v)"
  by (simp add: rebuildMapFromEventsCommand_def Let_def loadMap_def update_progress_other_files eventsText_def)

lemma loadPlan_rebuild: "loadPlan (rebuildMapFromEventsCommand v) = loadPlan v"
  by (simp add: rebuildMapFromEventsCommand_def Let_def loadPlan_def update_progress_other_files)

text \<open>
  Claim C5. Start with an empty map and a fresh events file and run Finalize any number
  of times, each run with a well-formed stamp and with a single-line plan entry for every
  checked index (so that the ledger is complete: one row for every insertion into the
  map). Then the map rebuilt from the ledger gives the same (firstUnread, uniqueRead) as
  the map the runs produced, and Rebuild Map From Events leaves the pair
  (last_order, verses_read) derived from map and plan as it was.
\<close>

theorem rebuild_from_complete_ledger:
  assumes "loadMap v0 = Map.empty"
    and "freshLedger (eventsFile v0)"
    and "list_all (completeRun (loadPlan v0)) runs"
  shows "computeFromMap (Some (rebuildMap (eventsText (finalizeAll runs v0))))
           (length (loadPlan (finalizeAll runs v0))) =
         computeFromMap (Some (loadMap (finalizeAll runs v0)))
           (length (loadPlan (finalizeAll runs v0))) \<and>
         derivedSnapshot (rebuildMapFromEventsCommand (finalizeAll runs v0)) =
         derivedSnapshot (finalizeAll runs v0)"
proof -
  let ?v = "finalizeAll runs v0"
  from vaultInv_runs [OF vaultInv_initial [OF assms(1,2)] assms(3)]
  obtain D where inv: "vaultInv (loadPlan v0) ?v D" by blast
  then have l: "ledgerInv (eventsFile ?v) D" and m: "\<forall>j. has (loadMap ?v j) = (j \<in> D)"
    by (simp_all add: vaultInv_def)
  have "has (rebuildMap (eventsText ?v) j) = has (loadMap ?v j)" for j
    using rebuild_of_inv [OF l, of j] m by (simp add: eventsText_def)
  then have c: "computeFromMap (Some (rebuildMap (eventsText ?v))) n =
                computeFromMap (Some (loadMap ?v)) n" for n
    by (intro computeFromMap_has_cong) (simp add: entry_def)
  then show ?thesis
    by (simp add: derivedSnapshot_def loadMap_rebuild loadPlan_rebuild)
qed

theorem rebuild_from_complete_ledger_witness:
  "loadMap freshVault = Map.empty \<and> freshLedger (eventsFile freshVault) \<and>
   list_all (completeRun (loadPlan freshVault)) twoRuns \<and>
   computeFromMap (Some (loadMap (finalizeAll twoRuns freshVault))) 8 =
     \<lparr> uniqueRead = 2, firstUnread = 1 \<rparr> \<and>
   computeFromMap (Some (rebuildMap (eventsText (finalizeAll twoRuns freshVault)))) 8 =
     \<lparr> uniqueRead = 2, firstUnread = 1 \<rparr> \<and>
   derivedSnapshot (rebuildMapFromEventsCommand (finalizeAll twoRuns freshVault)) =
     (Some (JNum 1), Some (JNum 2))"
proof -
  have a: "loadMap freshVault = Map.empty" by (simp add: loadMap_def freshVault_def)
  have b: "freshLedger (eventsFile freshVault)" by (simp add: freshLedger_def freshVault_def)
  have c: "list_all (completeRun (loadPlan freshVault)) twoRuns" by code_simp
  have p: "length (loadPlan (finalizeAll twoRuns freshVault)) = 8" by code_simp
  have m: "computeFromMap (Some (loadMap (finalizeAll twoRuns freshVault))) 8 =
     \<lparr> uniqueRead = 2, firstUnread = 1 \<rparr>" by code_simp
  from rebuild_from_complete_ledger [OF a b c] a b c p m
  show ?thesis by (simp add: derivedSnapshot_def)
qed

text \<open>
  Why a complete ledger needs single-line references: a line feed inside the reference
  splits the row, the rebuild takes the first half for a row of four columns and drops
  it, and the index is lost.
\<close>

lemma multiline_ref_breaks_row:
  "computeFromMap (Some (loadMap (finalizeBibleRead (Some checkedDoc) ''2025-10-07T08:00:00'' brokenRefVault))) 1 =
     \<lparr> uniqueRead = 1, firstUnread = 1 \<rparr> \<and>
   computeFromMap (Some (rebuildMap (eventsText
       (finalizeBibleRead (Some checkedDoc) ''2025-10-07T08:00:00'' brokenRefVault)))) 1 =
     \<lparr> uniqueRead = 0, firstUnread = 0 \<rparr>"
  by code_simp

subsection \<open>The scan of the document, line by line\<close>











































end
